theory Spec2Isabelle
  imports Complex_Main
begin

section \<open>Memory accesses and complex samples\<close>

text \<open>
  The C and C++ sources index raw arrays and \<^verbatim>\<open>std::vector\<close>s without any check.
  An access outside the extent of the array is undefined behaviour there; the model
  makes it a value: every read and write goes through \<open>rd\<close> and \<open>wr\<close>, which
  return \<open>Inl OutOfBounds\<close> when the index is outside the array.
\<close>

datatype fault = OutOfBounds

definition rd :: "'a list \<Rightarrow> int \<Rightarrow> fault + 'a" where
  "rd xs n = (if 0 \<le> n \<and> n < int (length xs) then Inr (xs ! nat n) else Inl OutOfBounds)"

definition wr :: "'a list \<Rightarrow> int \<Rightarrow> 'a \<Rightarrow> fault + 'a list" where
  "wr xs n v = (if 0 \<le> n \<and> n < int (length xs) then Inr (xs[nat n := v]) else Inl OutOfBounds)"

text \<open>
  \<^verbatim>\<open>kiss_fft_cpx\<close> of \<^verbatim>\<open>kiss_fft.h\<close>: a pair of scalars, the fields \<^verbatim>\<open>r\<close> and \<^verbatim>\<open>i\<close>,
  here \<open>cpx_r\<close> and \<open>cpx_i\<close>.
  The scalar type \<^verbatim>\<open>kiss_fft_scalar\<close> is \<^verbatim>\<open>float\<close> in this build (\<^verbatim>\<open>FIXED_POINT\<close> is
  not defined). The model leaves the scalar type open: it is any type with the
  operations the code applies to it, and no law of arithmetic is assumed of them, so
  every theorem holds for rounded single-precision arithmetic as well as for exact
  arithmetic.
\<close>

datatype 'a kiss_fft_cpx = Cpx (cpx_r: 'a) (cpx_i: 'a)

section \<open>The spectrum pipeline (audio-analysis-jni.cpp)\<close>

subsection \<open>What the pipeline calls and does not define\<close>

text \<open>
  The floating-point primitives of the C library and of the compiler: \<^verbatim>\<open>cosf\<close>,
  \<^verbatim>\<open>sqrtf\<close>, the constant \<^verbatim>\<open>M_PI\<close> (a \<^verbatim>\<open>double\<close>), the conversions between \<^verbatim>\<open>int\<close>,
  \<^verbatim>\<open>float\<close> and \<^verbatim>\<open>double\<close>, and the \<^verbatim>\<open>float\<close> literals of the source. \<open>'f\<close> stands for
  \<^verbatim>\<open>float\<close>, \<open>'d\<close> for \<^verbatim>\<open>double\<close>.
\<close>

record ('f, 'd) libm =
  cosf :: "'f \<Rightarrow> 'f"
  sqrtf :: "'f \<Rightarrow> 'f"
  M_PI :: 'd
  float_of_int :: "int \<Rightarrow> 'f"
  double_of_int :: "int \<Rightarrow> 'd"
  double_of_float :: "'f \<Rightarrow> 'd"
  float_of_double :: "'d \<Rightarrow> 'f"
  lit_0 :: 'f
  lit_half :: 'f
  lit_1 :: 'f
  lit_2 :: 'f

text \<open>
  The real-input transform of \<^verbatim>\<open>kiss_fftr.h\<close>, whose implementation is not part of the
  sources at hand. \<open>kiss_fftr_alloc K n\<close> is the result of
  \<^verbatim>\<open>kiss_fftr_alloc(n, 0, nullptr, nullptr)\<close>: \<open>None\<close> is the null pointer, \<open>Some c\<close> a
  configuration for size \<open>n\<close>. \<open>kiss_fftr K c timedata k\<close> is the bin that
  \<^verbatim>\<open>kiss_fftr(c, timedata, freqdata)\<close> stores into \<^verbatim>\<open>freqdata[k]\<close>; according to the header
  it stores the bins \<open>0 .. n/2\<close> for the size \<open>n\<close> the configuration was allocated for.
\<close>

record ('cfg, 'f) kissfft =
  kiss_fftr_alloc :: "int \<Rightarrow> 'cfg option"
  kiss_fftr :: "'cfg \<Rightarrow> 'f list \<Rightarrow> nat \<Rightarrow> 'f kiss_fft_cpx"

text \<open>
  The two calls of \<^verbatim>\<open>GetFloatArrayElements\<close>: each one either gives access to the
  elements of the Java array or returns the null pointer.
\<close>

record JNIEnv =
  input_ok :: bool
  output_ok :: bool

subsection \<open>The file-scope state\<close>

record ('cfg, 'f) fft_globals =
  cfg :: "'cfg option"
  current_nfft :: int
  window :: "'f list"
  fft_out :: "'f kiss_fft_cpx list"
  fft_in :: "'f list"

text \<open>The initialisers of the five statics.\<close>

definition initial_globals :: "('cfg, 'f) fft_globals" where
  "initial_globals = \<lparr>cfg = None, current_nfft = 0, window = [], fft_out = [], fft_in = []\<rparr>"

text \<open>\<^verbatim>\<open>std::vector::resize(n)\<close> for \<open>n \<ge> 0\<close>: the first \<open>n\<close> elements are kept, new ones
  are value-initialised (\<open>z\<close>).\<close>

definition resize :: "'a list \<Rightarrow> int \<Rightarrow> 'a \<Rightarrow> 'a list" where
  "resize xs n z = take (nat n) xs @ replicate (nat n - length xs) z"

subsection \<open>The loops\<close>

text \<open>
  \<^verbatim>\<open>jint\<close> is a 32-bit \<^verbatim>\<open>int\<close>. Past line 18 \<open>nfft\<close> is positive and every \<^verbatim>\<open>int\<close> the
  function computes (\<^verbatim>\<open>i + 1\<close>, \<^verbatim>\<open>nfft - 1\<close>, \<^verbatim>\<open>nfft / 2 + 1\<close>, \<^verbatim>\<open>bins\<close>) lies between 0 and
  \<open>nfft\<close>, so none can overflow: they are modelled on the integers as they stand.

  Line 37: \<^verbatim>\<open>0.5f * (1.0f - cosf(2.0f * M_PI * i / (nfft - 1)))\<close>. The argument of
  \<^verbatim>\<open>cosf\<close> is computed in \<^verbatim>\<open>double\<close> (\<^verbatim>\<open>M_PI\<close> is a \<^verbatim>\<open>double\<close>) and converted to
  \<^verbatim>\<open>float\<close> at the call.
\<close>

definition hann_coeff :: "('f::{minus,times}, 'd::{times,inverse}) libm \<Rightarrow> int \<Rightarrow> int \<Rightarrow> 'f" where
  "hann_coeff M nfft i =
     lit_half M * (lit_1 M - cosf M (float_of_double M
       (double_of_float M (lit_2 M) * M_PI M * double_of_int M i / double_of_int M (nfft - 1))))"

text \<open>Lines 36 to 38.\<close>

function hann_loop :: "('f::{minus,times}, 'd::{times,inverse}) libm \<Rightarrow> int \<Rightarrow> int \<Rightarrow> 'f list \<Rightarrow> fault + 'f list" where
  "hann_loop M nfft i win =
     (if i < nfft then
        (case wr win i (hann_coeff M nfft i) of
           Inl e \<Rightarrow> Inl e
         | Inr win' \<Rightarrow> hann_loop M nfft (i + 1) win')
      else Inr win)"
  by pat_completeness auto
termination
  by (relation "measure (\<lambda>(M, nfft, i, win). nat (nfft - i))") auto

declare hann_loop.simps [simp del]

text \<open>Lines 58 to 60.\<close>

function window_loop :: "('f::times) list \<Rightarrow> 'f list \<Rightarrow> int \<Rightarrow> int \<Rightarrow> 'f list \<Rightarrow> fault + 'f list" where
  "window_loop inData win nfft i fin =
     (if i < nfft then
        (case rd inData i of
           Inl e \<Rightarrow> Inl e
         | Inr x \<Rightarrow>
             (case rd win i of
                Inl e \<Rightarrow> Inl e
              | Inr w \<Rightarrow>
                  (case wr fin i (x * w) of
                     Inl e \<Rightarrow> Inl e
                   | Inr fin' \<Rightarrow> window_loop inData win nfft (i + 1) fin')))
      else Inr fin)"
  by pat_completeness auto
termination
  by (relation "measure (\<lambda>(inData, win, nfft, i, fin). nat (nfft - i))") auto

declare window_loop.simps [simp del]

text \<open>
  Lines 77 to 86. \<^verbatim>\<open>nfft / 2\<close> is a division of \<^verbatim>\<open>int\<close>s; \<open>nfft\<close> is positive here,
  so truncation and \<open>div\<close> agree.
\<close>

function magnitude_loop ::
  "('f::{plus,times,inverse}, 'd) libm \<Rightarrow> 'f kiss_fft_cpx list \<Rightarrow> int \<Rightarrow> int \<Rightarrow> int \<Rightarrow> 'f list \<Rightarrow> fault + 'f list" where
  "magnitude_loop M fout nfft bins i outData =
     (if i < bins then
        (case rd fout i of
           Inl e \<Rightarrow> Inl e
         | Inr c \<Rightarrow>
             (let re = cpx_r c; im = cpx_i c; mag = sqrtf M (re * re + im * im) in
              case wr outData i (mag / float_of_int M (nfft div 2)) of
                Inl e \<Rightarrow> Inl e
              | Inr outData' \<Rightarrow> magnitude_loop M fout nfft bins (i + 1) outData'))
      else Inr outData)"
  by pat_completeness auto
termination
  by (relation "measure (\<lambda>(M, fout, nfft, bins, i, outData). nat (bins - i))") auto

declare magnitude_loop.simps [simp del]

subsection \<open>computeFft and cleanupFft\<close>

text \<open>
  Lines 21 to 39: the configuration is rebuilt when none is held or the size differs.
  \<^verbatim>\<open>free\<close> changes nothing that the model observes.
  The result carries the new state and whether a configuration is held afterwards
  (\<open>False\<close> is the \<^verbatim>\<open>return\<close> of line 27).
\<close>

definition reallocate ::
  "('cfg, 'f) kissfft \<Rightarrow> ('f::{minus,times}, 'd::{times,inverse}) libm \<Rightarrow> ('cfg, 'f) fft_globals \<Rightarrow> int
     \<Rightarrow> fault + (('cfg, 'f) fft_globals \<times> bool)" where
  "reallocate K M s nfft =
     (if cfg s = None \<or> current_nfft s \<noteq> nfft then
        (case kiss_fftr_alloc K nfft of
           None \<Rightarrow> Inr (s\<lparr>cfg := None\<rparr>, False)
         | Some c \<Rightarrow>
             (let s1 = s\<lparr>cfg := Some c, current_nfft := nfft,
                         window := resize (window s) nfft (lit_0 M),
                         fft_in := resize (fft_in s) nfft (lit_0 M),
                         fft_out := resize (fft_out s) (nfft div 2 + 1) (Cpx (lit_0 M) (lit_0 M))\<rparr>
              in case hann_loop M nfft 0 (window s1) of
                   Inl e \<Rightarrow> Inl e
                 | Inr win \<Rightarrow> Inr (s1\<lparr>window := win\<rparr>, True)))
      else Inr (s, True))"

text \<open>
  The function returns \<^verbatim>\<open>void\<close>; the model returns the new state of the statics, the
  contents of the Java array \<^verbatim>\<open>output\<close> after the call, and the \<^verbatim>\<open>return\<close> that ended
  the call. \<^verbatim>\<open>kiss_fftr\<close> writes through \<^verbatim>\<open>fft_out.data()\<close> and cannot change the size of
  the vector; it stores \<open>nfft / 2 + 1\<close> bins, which is the length of \<open>fft_out\<close> in every
  reachable state, and the model has it store that many.
\<close>

datatype exit_point = InvalidSize | AllocationFailed | BufferInaccessible | NoConfiguration | Completed

definition computeFft ::
  "('cfg, 'f) kissfft \<Rightarrow> ('f::{plus,minus,times,inverse}, 'd::{times,inverse}) libm \<Rightarrow> JNIEnv
     \<Rightarrow> ('cfg, 'f) fft_globals \<Rightarrow> 'f list \<Rightarrow> 'f list \<Rightarrow> int
     \<Rightarrow> fault + (('cfg, 'f) fft_globals \<times> 'f list \<times> exit_point)" where
  "computeFft K M env s input output nfft =
     (if nfft \<le> 0 then Inr (s, output, InvalidSize)
      else
        (case reallocate K M s nfft of
           Inl e \<Rightarrow> Inl e
         | Inr (s1, False) \<Rightarrow> Inr (s1, output, AllocationFailed)
         | Inr (s1, True) \<Rightarrow>
             if \<not> input_ok env \<or> \<not> output_ok env then Inr (s1, output, BufferInaccessible)
             else
               (case cfg s1 of
                  None \<Rightarrow> Inr (s1, output, NoConfiguration)
                | Some c \<Rightarrow>
                    (case window_loop input (window s1) nfft 0 (fft_in s1) of
                       Inl e \<Rightarrow> Inl e
                     | Inr fin \<Rightarrow>
                         (let fout = map (kiss_fftr K c fin) [0..<length (fft_out s1)];
                              s2 = s1\<lparr>fft_in := fin, fft_out := fout\<rparr>;
                              outSize = int (length output);
                              bins = min outSize (nfft div 2)
                          in case magnitude_loop M fout nfft bins 0 output of
                               Inl e \<Rightarrow> Inl e
                             | Inr outData \<Rightarrow> Inr (s2, outData, Completed))))))"

text \<open>Lines 93 to 100.\<close>

definition cleanupFft :: "('cfg, 'f) fft_globals \<Rightarrow> ('cfg, 'f) fft_globals" where
  "cleanupFft s = (let s1 = (if cfg s \<noteq> None then s\<lparr>cfg := None\<rparr> else s) in s1\<lparr>current_nfft := 0\<rparr>)"

subsection \<open>Closed forms of the three loops\<close>

text \<open>
  The table the loop of lines 36 to 38 leaves in \<open>window\<close>, the buffer the loop of lines
  58 to 60 leaves in \<open>fft_in\<close>, and the value line 85 stores for one bin.
\<close>

definition hann_window :: "('f::{minus,times}, 'd::{times,inverse}) libm \<Rightarrow> int \<Rightarrow> 'f list" where
  "hann_window M n = map (\<lambda>k. hann_coeff M n (int k)) [0..<nat n]"

definition windowed :: "('f::times) list \<Rightarrow> 'f list \<Rightarrow> int \<Rightarrow> 'f list" where
  "windowed inData win n = map (\<lambda>k. inData ! k * win ! k) [0..<nat n]"

definition magnitude :: "('f::{plus,times,inverse}, 'd) libm \<Rightarrow> int \<Rightarrow> 'f kiss_fft_cpx \<Rightarrow> 'f" where
  "magnitude M n c = sqrtf M (cpx_r c * cpx_r c + cpx_i c * cpx_i c) / float_of_int M (n div 2)"

definition spectrum ::
  "('cfg, 'f) kissfft \<Rightarrow> ('f::{minus,times}, 'd::{times,inverse}) libm \<Rightarrow> 'cfg \<Rightarrow> 'f list \<Rightarrow> int \<Rightarrow> 'f kiss_fft_cpx list" where
  "spectrum K M c input n = map (kiss_fftr K c (windowed input (hann_window M n) n)) [0..<nat (n div 2 + 1)]"

subsection \<open>Reachable states and their invariant\<close>

text \<open>
  The states of the statics that a caller can observe: the initial one, and the ones
  left by a call of \<open>computeFft\<close> that returned or by \<open>cleanupFft\<close>.
\<close>

inductive reachable ::
  "('cfg, 'f) kissfft \<Rightarrow> ('f::{plus,minus,times,inverse}, 'd::{times,inverse}) libm \<Rightarrow> ('cfg, 'f) fft_globals \<Rightarrow> bool"
  for K M where
    start: "reachable K M initial_globals"
  | call: "reachable K M s \<Longrightarrow> computeFft K M env s input output n = Inr (s', output', e) \<Longrightarrow> reachable K M s'"
  | cleanup: "reachable K M s \<Longrightarrow> reachable K M (cleanupFft s)"

text \<open>
  What holds in each of them: a configuration that is held is the one allocated for
  the cached size, and while the cached size is not 0 the window is the Hann table
  of that size and the two scratch buffers have the lengths that go with it.
\<close>

definition pipeline_inv ::
  "('cfg, 'f) kissfft \<Rightarrow> ('f::{minus,times}, 'd::{times,inverse}) libm \<Rightarrow> ('cfg, 'f) fft_globals \<Rightarrow> bool" where
  "pipeline_inv K M s \<longleftrightarrow>
     0 \<le> current_nfft s \<and>
     (cfg s \<noteq> None \<longrightarrow> current_nfft s \<noteq> 0 \<and> cfg s = kiss_fftr_alloc K (current_nfft s)) \<and>
     (current_nfft s \<noteq> 0 \<longrightarrow>
        window s = hann_window M (current_nfft s) \<and>
        int (length (fft_in s)) = current_nfft s \<and>
        int (length (fft_out s)) = current_nfft s div 2 + 1)"

subsection \<open>An exact instance\<close>

text \<open>
  One instance of the primitives, used where a theorem is applied to concrete data:
  real arithmetic without rounding, and for the transform the discrete Fourier
  transform of the real sequence, available for even positive sizes.
\<close>

definition exact_libm :: "(real, real) libm" where
  "exact_libm = \<lparr>cosf = cos, sqrtf = sqrt, M_PI = pi, float_of_int = real_of_int,
     double_of_int = real_of_int, double_of_float = (\<lambda>x. x), float_of_double = (\<lambda>x. x),
     lit_0 = 0, lit_half = 1 / 2, lit_1 = 1, lit_2 = 2\<rparr>"

definition exact_kissfft :: "(int, real) kissfft" where
  "exact_kissfft = \<lparr>kiss_fftr_alloc = (\<lambda>n. if 0 < n \<and> even n then Some n else None),
     kiss_fftr = (\<lambda>c xs k. Cpx (\<Sum>j<length xs. xs ! j * cos (2 * pi * real j * real k / real (length xs)))
                             (- (\<Sum>j<length xs. xs ! j * sin (2 * pi * real j * real k / real (length xs)))))\<rparr>"

text \<open>
  The data of the concrete instances: both arrays accessible, a unit impulse of
  length 8, and the state a completed call of size 8 on it leaves.
\<close>

definition accessible :: JNIEnv where
  "accessible = \<lparr>input_ok = True, output_ok = True\<rparr>"

definition impulse :: "real list" where
  "impulse = [1, 0, 0, 0, 0, 0, 0, 0]"

definition state_8 :: "(int, real) fft_globals" where
  "state_8 = \<lparr>cfg = Some 8, current_nfft = 8, window = hann_window exact_libm 8,
     fft_out = spectrum exact_kissfft exact_libm 8 impulse 8,
     fft_in = windowed impulse (hann_window exact_libm 8) 8\<rparr>"

section \<open>The generic butterfly (_kiss_fft_guts.h)\<close>

subsection \<open>Machine integers and the complex macros\<close>

text \<open>
  \<^verbatim>\<open>int\<close> has 32 bits and \<^verbatim>\<open>size_t\<close> 64 on the targets of this module. Values are
  modelled as mathematical integers; \<open>to_int\<close> is the conversion to \<^verbatim>\<open>int\<close> (two's
  complement truncation) and \<open>to_size_t\<close> the conversion to \<^verbatim>\<open>size_t\<close> (reduction
  modulo \<open>2 ^ 64\<close>), written at every place where the source computes or converts.
  An \<^verbatim>\<open>int\<close> addition that overflows, undefined in C, is given the truncated value
  as well. On a target whose \<^verbatim>\<open>size_t\<close> has 32 bits the value \<open>to_int\<close> yields is the
  same.
\<close>

definition to_int :: "int \<Rightarrow> int" where
  "to_int x = (x + 2 ^ 31) mod 2 ^ 32 - 2 ^ 31"

definition to_size_t :: "int \<Rightarrow> int" where
  "to_size_t x = x mod 2 ^ 64"

text \<open>
  The macros of the floating-point build (\<^verbatim>\<open>FIXED_POINT\<close> undefined): \<^verbatim>\<open>C_MUL(m, a, b)\<close>
  assigns the product to \<open>m\<close>, \<^verbatim>\<open>C_ADDTO(res, a)\<close> adds \<open>a\<close> to \<open>res\<close>, and
  \<^verbatim>\<open>C_FIXDIV\<close> expands to nothing.
\<close>

definition C_MUL :: "('a::{plus,minus,times}) kiss_fft_cpx \<Rightarrow> 'a kiss_fft_cpx \<Rightarrow> 'a kiss_fft_cpx" where
  "C_MUL a b = Cpx (cpx_r a * cpx_r b - cpx_i a * cpx_i b) (cpx_r a * cpx_i b + cpx_i a * cpx_r b)"

definition C_ADDTO :: "('a::plus) kiss_fft_cpx \<Rightarrow> 'a kiss_fft_cpx \<Rightarrow> 'a kiss_fft_cpx" where
  "C_ADDTO res a = Cpx (cpx_r res + cpx_r a) (cpx_i res + cpx_i a)"

definition C_FIXDIV :: "'a kiss_fft_cpx \<Rightarrow> int \<Rightarrow> 'a kiss_fft_cpx" where
  "C_FIXDIV c d = c"

text \<open>
  \<^verbatim>\<open>struct kiss_fft_state\<close>. The field \<^verbatim>\<open>inverse\<close> is named \<open>inverse_fft\<close> here;
  \<^verbatim>\<open>twiddles\<close> is declared with one element and allocated with \<^verbatim>\<open>nfft\<close> of them, so
  its extent is the length of the list.
\<close>

record 'a kiss_fft_state =
  nfft :: int
  inverse_fft :: int
  factors :: "int list"
  twiddles :: "'a kiss_fft_cpx list"

subsection \<open>kf_bfly_generic, loop by loop\<close>

text \<open>
  \<open>Fout\<close> points into the caller's sample array, whose extent the function does not
  know: it is a store indexed relative to the pointer. \<^verbatim>\<open>scratch\<close> and \<^verbatim>\<open>twiddles\<close> have
  a known extent and are read and written through \<open>rd\<close> and \<open>wr\<close>.

  Lines 200 to 204, the gathering loop. The counters \<open>q1\<close>, \<open>q\<close> and \<open>u\<close> stay below
  \<open>p\<close> or \<open>m\<close>, so their increments cannot overflow; \<open>k\<close> and \<open>twidx\<close> can.
\<close>

function gather_loop ::
  "(int \<Rightarrow> 'a kiss_fft_cpx) \<Rightarrow> int \<Rightarrow> int \<Rightarrow> int \<Rightarrow> int \<Rightarrow> 'a kiss_fft_cpx list \<Rightarrow> fault + 'a kiss_fft_cpx list" where
  "gather_loop Fout m p q1 k scratch =
     (if q1 < p then
        (case wr scratch q1 (C_FIXDIV (Fout k) p) of
           Inl e \<Rightarrow> Inl e
         | Inr scratch' \<Rightarrow> gather_loop Fout m p (q1 + 1) (to_int (k + m)) scratch')
      else Inr scratch)"
  by pat_completeness auto
termination
  by (relation "measure (\<lambda>(Fout, m, p, q1, k, scratch). nat (p - q1))") auto

declare gather_loop.simps [simp del]

text \<open>Lines 211 to 213: the update of \<^verbatim>\<open>twidx\<close>. The sum is computed in \<^verbatim>\<open>size_t\<close>
  (\<^verbatim>\<open>fstride\<close> is a \<^verbatim>\<open>size_t\<close>) and converted back to \<^verbatim>\<open>int\<close> by the assignment.\<close>

definition next_twidx :: "int \<Rightarrow> int \<Rightarrow> int \<Rightarrow> int \<Rightarrow> int" where
  "next_twidx Norig fstride k twidx =
     (let twidx1 = to_int (to_size_t (to_size_t twidx + to_size_t (fstride * to_size_t k)))
      in if twidx1 \<ge> Norig then to_int (twidx1 - Norig) else twidx1)"

text \<open>Lines 210 to 216, the loop over \<open>q\<close>.\<close>

function twiddle_loop ::
  "('a::{plus,minus,times}) kiss_fft_state \<Rightarrow> int \<Rightarrow> int \<Rightarrow> 'a kiss_fft_cpx list \<Rightarrow> int \<Rightarrow> int \<Rightarrow> int
     \<Rightarrow> (int \<Rightarrow> 'a kiss_fft_cpx) \<Rightarrow> fault + (int \<Rightarrow> 'a kiss_fft_cpx)" where
  "twiddle_loop st fstride p scratch k q twidx Fout =
     (if q < p then
        (let twidx' = next_twidx (nfft st) fstride k twidx in
         case rd scratch q of
           Inl e \<Rightarrow> Inl e
         | Inr s \<Rightarrow>
             (case rd (twiddles st) twidx' of
                Inl e \<Rightarrow> Inl e
              | Inr w \<Rightarrow>
                  twiddle_loop st fstride p scratch k (q + 1) twidx'
                    (Fout(k := C_ADDTO (Fout k) (C_MUL s w)))))
      else Inr Fout)"
  by pat_completeness auto
termination
  by (relation "measure (\<lambda>(st, fstride, p, scratch, k, q, twidx, Fout). nat (p - q))") auto

declare twiddle_loop.simps [simp del]

text \<open>Lines 207 to 218, the loop over the output positions \<open>q1\<close> of one lane.\<close>

function output_loop ::
  "('a::{plus,minus,times}) kiss_fft_state \<Rightarrow> int \<Rightarrow> int \<Rightarrow> int \<Rightarrow> 'a kiss_fft_cpx list \<Rightarrow> int \<Rightarrow> int
     \<Rightarrow> (int \<Rightarrow> 'a kiss_fft_cpx) \<Rightarrow> fault + (int \<Rightarrow> 'a kiss_fft_cpx)" where
  "output_loop st fstride m p scratch q1 k Fout =
     (if q1 < p then
        (case rd scratch 0 of
           Inl e \<Rightarrow> Inl e
         | Inr s0 \<Rightarrow>
             (case twiddle_loop st fstride p scratch k 1 0 (Fout(k := s0)) of
                Inl e \<Rightarrow> Inl e
              | Inr Fout' \<Rightarrow> output_loop st fstride m p scratch (q1 + 1) (to_int (k + m)) Fout'))
      else Inr Fout)"
  by pat_completeness auto
termination
  by (relation "measure (\<lambda>(st, fstride, m, p, scratch, q1, k, Fout). nat (p - q1))") auto

declare output_loop.simps [simp del]

text \<open>Lines 198 to 219, the loop over the lanes \<open>u\<close>.\<close>

function lane_loop ::
  "('a::{plus,minus,times}) kiss_fft_state \<Rightarrow> int \<Rightarrow> int \<Rightarrow> int \<Rightarrow> int \<Rightarrow> 'a kiss_fft_cpx list
     \<Rightarrow> (int \<Rightarrow> 'a kiss_fft_cpx) \<Rightarrow> fault + (int \<Rightarrow> 'a kiss_fft_cpx)" where
  "lane_loop st fstride m p u scratch Fout =
     (if u < m then
        (case gather_loop Fout m p 0 u scratch of
           Inl e \<Rightarrow> Inl e
         | Inr scratch' \<Rightarrow>
             (case output_loop st fstride m p scratch' 0 u Fout of
                Inl e \<Rightarrow> Inl e
              | Inr Fout' \<Rightarrow> lane_loop st fstride m p (u + 1) scratch' Fout'))
      else Inr Fout)"
  by pat_completeness auto
termination
  by (relation "measure (\<lambda>(st, fstride, m, p, u, scratch, Fout). nat (m - u))") auto

declare lane_loop.simps [simp del]

text \<open>
  The function. \<^verbatim>\<open>malloc\<close> is taken to succeed and returns \<open>p\<close> cells of unspecified
  contents, \<open>junk\<close>.
\<close>

definition kf_bfly_generic ::
  "(int \<Rightarrow> 'a kiss_fft_cpx) \<Rightarrow> int \<Rightarrow> ('a::{plus,minus,times}) kiss_fft_state \<Rightarrow> int \<Rightarrow> int \<Rightarrow> 'a kiss_fft_cpx
     \<Rightarrow> fault + (int \<Rightarrow> 'a kiss_fft_cpx)" where
  "kf_bfly_generic Fout fstride st m p junk = lane_loop st fstride m p 0 (replicate (nat p) junk) Fout"

subsection \<open>The transform the specification describes\<close>

text \<open>
  For lane \<open>u\<close> and output position \<open>j\<close>: the gathered value of position 0, to which
  the gathered values of the positions \<open>q = 1, \<dots>, p - 1\<close> are added in this order,
  each multiplied by the twiddle factor at index \<open>(q * fstride * (u + j * m)) mod nfft\<close>.
\<close>

definition direct_dft ::
  "('a::{plus,minus,times}) kiss_fft_state \<Rightarrow> int \<Rightarrow> int \<Rightarrow> int \<Rightarrow> (int \<Rightarrow> 'a kiss_fft_cpx) \<Rightarrow> int \<Rightarrow> int \<Rightarrow> 'a kiss_fft_cpx" where
  "direct_dft st fstride m p Fout u j =
     foldl (\<lambda>acc q. C_ADDTO acc (C_MUL (Fout (u + q * m))
                                   (twiddles st ! nat ((q * fstride * (u + j * m)) mod nfft st))))
       (Fout u) [1..p - 1]"

subsection \<open>The configurations the program builds\<close>

text \<open>
  Modelled from the spec: the size of the complex configuration on which the program
  runs the butterfly. \<^verbatim>\<open>kiss_fftr.c\<close>, which builds that configuration, is not among the
  sources. \<open>computeFft\<close> is the only entry point; it passes its \<^verbatim>\<open>jint\<close> \<open>nfft\<close> to
  \<^verbatim>\<open>kiss_fftr_alloc\<close>, and the real transform runs the complex transform, and with it
  the butterfly, on half that size (section 2 of the specification: the factors of
  \<open>N/2\<close>; \<^verbatim>\<open>kiss_fftr.h\<close>: \<^verbatim>\<open>nfft\<close> must be even). \<open>configured_for n st\<close> says that \<open>st\<close> is
  the complex configuration for the requested size \<open>n\<close>.
\<close>

definition jint :: "int \<Rightarrow> bool" where
  "jint n \<longleftrightarrow> - (2 ^ 31) \<le> n \<and> n < 2 ^ 31"

definition configured_for :: "int \<Rightarrow> 'a kiss_fft_state \<Rightarrow> bool" where
  "configured_for n st \<longleftrightarrow> jint n \<and> 0 < nfft st \<and> nfft st = n div 2"

subsection \<open>Tables for the concrete instances\<close>

text \<open>
  Over the integers as scalars: a table of six entries, the complex configuration
  for the requested size 12, and a table of \<open>n\<close> entries that are all 1, for sizes
  where only the indices matter.
\<close>

definition unit_table :: "int \<Rightarrow> int kiss_fft_state" where
  "unit_table n = \<lparr>nfft = n, inverse_fft = 0, factors = [], twiddles = replicate (nat n) (Cpx 1 0)\<rparr>"

definition table_6 :: "int kiss_fft_state" where
  "table_6 = \<lparr>nfft = 6, inverse_fft = 0, factors = [],
     twiddles = [Cpx 1 0, Cpx 2 (- 1), Cpx 0 (- 1), Cpx (- 1) 0, Cpx (- 2) 1, Cpx 0 1]\<rparr>"

section \<open>The loops compute their closed forms\<close>

lemma hann_loop_result:
  "0 \<le> i \<Longrightarrow> n \<le> int (length win) \<Longrightarrow>
   \<exists>w. hann_loop M n i win = Inr w \<and> length w = length win \<and>
       (\<forall>k<length win. w ! k = (if nat i \<le> k \<and> int k < n then hann_coeff M n (int k) else win ! k))"
proof (induction M n i win rule: hann_loop.induct)
  case (1 M n i win)
  show ?case
  proof (cases "i < n")
    case False
    then show ?thesis by (subst hann_loop.simps) auto
  next
    case True
    with "1.prems" have w: "wr win i (hann_coeff M n i) = Inr (win[nat i := hann_coeff M n i])"
      by (simp add: wr_def)
    from "1.IH" [OF True w] "1.prems"
    obtain w' where w': "hann_loop M n (i + 1) (win[nat i := hann_coeff M n i]) = Inr w'"
      "length w' = length win"
      "\<forall>k<length win. w' ! k = (if nat (i + 1) \<le> k \<and> int k < n then hann_coeff M n (int k)
          else win[nat i := hann_coeff M n i] ! k)"
      by auto
    have "hann_loop M n i win = Inr w'"
      by (subst hann_loop.simps) (simp add: True w w')
    moreover have "\<forall>k<length win. w' ! k = (if nat i \<le> k \<and> int k < n then hann_coeff M n (int k) else win ! k)"
      using w'(3) True "1.prems" by (auto simp: nth_list_update)
    ultimately show ?thesis using w'(2) by blast
  qed
qed

lemma hann_loop_full:
  assumes "int (length win) = n"
  shows "hann_loop M n 0 win = Inr (hann_window M n)"
proof -
  from hann_loop_result [of 0 n win M] assms
  obtain w where w: "hann_loop M n 0 win = Inr w" "length w = length win"
    "\<forall>k<length win. w ! k = (if int k < n then hann_coeff M n (int k) else win ! k)"
    by auto
  have "w = hann_window M n"
    using w(2,3) assms by (intro nth_equalityI) (auto simp: hann_window_def)
  with w(1) show ?thesis by simp
qed

lemma window_loop_result:
  "0 \<le> i \<Longrightarrow> n \<le> int (length inData) \<Longrightarrow> n \<le> int (length win) \<Longrightarrow> n \<le> int (length fin) \<Longrightarrow>
   \<exists>f. window_loop inData win n i fin = Inr f \<and> length f = length fin \<and>
       (\<forall>k<length fin. f ! k = (if nat i \<le> k \<and> int k < n then inData ! k * win ! k else fin ! k))"
proof (induction inData win n i fin rule: window_loop.induct)
  case (1 inData win n i fin)
  show ?case
  proof (cases "i < n")
    case False
    then show ?thesis by (subst window_loop.simps) auto
  next
    case True
    let ?v = "inData ! nat i * win ! nat i"
    from True "1.prems" have r1: "rd inData i = Inr (inData ! nat i)"
      and r2: "rd win i = Inr (win ! nat i)"
      and w: "wr fin i ?v = Inr (fin[nat i := ?v])"
      by (simp_all add: rd_def wr_def)
    from "1.IH" [OF True r1 r2 w] "1.prems"
    obtain f where f: "window_loop inData win n (i + 1) (fin[nat i := ?v]) = Inr f"
      "length f = length fin"
      "\<forall>k<length fin. f ! k = (if nat (i + 1) \<le> k \<and> int k < n then inData ! k * win ! k
          else fin[nat i := ?v] ! k)"
      by auto
    have "window_loop inData win n i fin = Inr f"
      by (subst window_loop.simps) (simp add: True r1 r2 w f)
    moreover have "\<forall>k<length fin. f ! k = (if nat i \<le> k \<and> int k < n then inData ! k * win ! k else fin ! k)"
      using f(3) True "1.prems" by (auto simp: nth_list_update)
    ultimately show ?thesis using f(2) by blast
  qed
qed

lemma window_loop_full:
  assumes "n \<le> int (length inData)" "int (length win) = n" "int (length fin) = n"
  shows "window_loop inData win n 0 fin = Inr (windowed inData win n)"
proof -
  from window_loop_result [of 0 n inData win fin] assms
  obtain f where f: "window_loop inData win n 0 fin = Inr f" "length f = length fin"
    "\<forall>k<length fin. f ! k = (if int k < n then inData ! k * win ! k else fin ! k)"
    by auto
  have "f = windowed inData win n"
    using f(2,3) assms by (intro nth_equalityI) (auto simp: windowed_def)
  with f(1) show ?thesis by simp
qed

lemma magnitude_loop_result:
  "0 \<le> i \<Longrightarrow> bins \<le> int (length fout) \<Longrightarrow> bins \<le> int (length outData) \<Longrightarrow>
   \<exists>out. magnitude_loop M fout n bins i outData = Inr out \<and> length out = length outData \<and>
       (\<forall>k<length outData. out ! k = (if nat i \<le> k \<and> int k < bins then magnitude M n (fout ! k) else outData ! k))"
proof (induction M fout n bins i outData rule: magnitude_loop.induct)
  case (1 M fout n bins i outData)
  show ?case
  proof (cases "i < bins")
    case False
    then show ?thesis by (subst magnitude_loop.simps) auto
  next
    case True
    let ?v = "magnitude M n (fout ! nat i)"
    from True "1.prems" have r: "rd fout i = Inr (fout ! nat i)"
      and w: "wr outData i ?v = Inr (outData[nat i := ?v])"
      by (simp_all add: rd_def wr_def)
    have w': "wr outData i (sqrtf M (cpx_r (fout ! nat i) * cpx_r (fout ! nat i)
          + cpx_i (fout ! nat i) * cpx_i (fout ! nat i)) / float_of_int M (n div 2)) = Inr (outData[nat i := ?v])"
      using w by (simp add: magnitude_def)
    from "1.IH" [OF True r refl refl refl w'] "1.prems"
    obtain out where out: "magnitude_loop M fout n bins (i + 1) (outData[nat i := ?v]) = Inr out"
      "length out = length outData"
      "\<forall>k<length outData. out ! k = (if nat (i + 1) \<le> k \<and> int k < bins then magnitude M n (fout ! k)
          else outData[nat i := ?v] ! k)"
      by auto
    have "magnitude_loop M fout n bins i outData = Inr out"
      by (subst magnitude_loop.simps) (simp add: True r w' out Let_def)
    moreover have "\<forall>k<length outData. out ! k = (if nat i \<le> k \<and> int k < bins then magnitude M n (fout ! k) else outData ! k)"
      using out(3) True "1.prems" by (auto simp: nth_list_update)
    ultimately show ?thesis using out(2) by blast
  qed
qed

lemma magnitude_loop_full:
  assumes "bins \<le> int (length fout)" "bins \<le> int (length outData)"
  shows "magnitude_loop M fout n bins 0 outData
         = Inr (map (\<lambda>k. magnitude M n (fout ! k)) [0..<nat bins] @ drop (nat bins) outData)"
proof -
  from magnitude_loop_result [of 0 bins fout outData M n] assms
  obtain out where out: "magnitude_loop M fout n bins 0 outData = Inr out" "length out = length outData"
    "\<forall>k<length outData. out ! k = (if int k < bins then magnitude M n (fout ! k) else outData ! k)"
    by auto
  have "out = map (\<lambda>k. magnitude M n (fout ! k)) [0..<nat bins] @ drop (nat bins) outData"
    using out(2,3) assms by (intro nth_equalityI) (auto simp: nth_append)
  with out(1) show ?thesis by simp
qed

section \<open>One call of computeFft\<close>

lemma length_resize [simp]: "length (resize xs n z) = nat n"
  by (simp add: resize_def)

lemma length_hann_window [simp]: "length (hann_window M n) = nat n"
  by (simp add: hann_window_def)

lemma length_windowed [simp]: "length (windowed inData win n) = nat n"
  by (simp add: windowed_def)

lemma length_spectrum [simp]: "length (spectrum K M c input n) = nat (n div 2 + 1)"
  by (simp add: spectrum_def)

lemma reallocate_cached:
  "cfg s \<noteq> None \<Longrightarrow> current_nfft s = n \<Longrightarrow> reallocate K M s n = Inr (s, True)"
  by (auto simp: reallocate_def)

lemma reallocate_failed:
  "cfg s = None \<or> current_nfft s \<noteq> n \<Longrightarrow> kiss_fftr_alloc K n = None \<Longrightarrow>
   reallocate K M s n = Inr (s\<lparr>cfg := None\<rparr>, False)"
  by (auto simp: reallocate_def)

lemma reallocate_rebuilt:
  assumes "0 \<le> n" "cfg s = None \<or> current_nfft s \<noteq> n" "kiss_fftr_alloc K n = Some c"
  shows "reallocate K M s n =
         Inr (\<lparr>cfg = Some c, current_nfft = n, window = hann_window M n,
               fft_out = resize (fft_out s) (n div 2 + 1) (Cpx (lit_0 M) (lit_0 M)),
               fft_in = resize (fft_in s) n (lit_0 M)\<rparr>, True)"
proof -
  have "hann_loop M n 0 (resize (window s) n (lit_0 M)) = Inr (hann_window M n)"
    using assms(1) by (intro hann_loop_full) simp
  then show ?thesis
    using assms(2,3) by (auto simp: reallocate_def Let_def)
qed

lemma windowed_take:
  "windowed (take (nat n) inData) win n = windowed inData win n"
  by (simp add: windowed_def)

lemma computeFft_analyse:
  assumes cfg: "cfg s1 = Some c" and win: "window s1 = hann_window M n"
    and fin: "int (length (fft_in s1)) = n" and fout: "int (length (fft_out s1)) = n div 2 + 1"
    and n: "0 < n" and input: "n \<le> int (length input)"
  shows "(case window_loop input (window s1) n 0 (fft_in s1) of
            Inl e \<Rightarrow> Inl e
          | Inr fin \<Rightarrow>
              (let fout = map (kiss_fftr K c fin) [0..<length (fft_out s1)];
                   s2 = s1\<lparr>fft_in := fin, fft_out := fout\<rparr>;
                   outSize = int (length outp);
                   bins = min outSize (n div 2)
               in case magnitude_loop M fout n bins 0 outp of
                    Inl e \<Rightarrow> Inl e
                  | Inr outData \<Rightarrow> Inr (s2, outData, Completed)))
         = Inr (s1\<lparr>fft_in := windowed input (hann_window M n) n, fft_out := spectrum K M c input n\<rparr>,
                map (\<lambda>k. magnitude M n (spectrum K M c input n ! k)) [0..<nat (min (int (length outp)) (n div 2))]
                  @ drop (nat (min (int (length outp)) (n div 2))) outp,
                Completed)"
proof -
  have wl: "window_loop input (window s1) n 0 (fft_in s1) = Inr (windowed input (hann_window M n) n)"
    unfolding win using input fin n by (intro window_loop_full) simp_all
  have len: "length (fft_out s1) = nat (n div 2 + 1)"
    using fout by simp
  have sp: "map (kiss_fftr K c (windowed input (hann_window M n) n)) [0..<length (fft_out s1)] = spectrum K M c input n"
    by (simp add: spectrum_def len)
  have ml: "magnitude_loop M (spectrum K M c input n) n (min (int (length outp)) (n div 2)) 0 outp
      = Inr (map (\<lambda>k. magnitude M n (spectrum K M c input n ! k)) [0..<nat (min (int (length outp)) (n div 2))]
                  @ drop (nat (min (int (length outp)) (n div 2))) outp)"
    using n by (intro magnitude_loop_full) auto
  show ?thesis
    by (simp add: wl sp ml Let_def)
qed

lemma computeFft_cached:
  assumes inv: "pipeline_inv K M s" and n: "0 < n" and held: "cfg s = Some c" and same: "current_nfft s = n"
    and input: "n \<le> int (length input)" and env: "input_ok env" "output_ok env"
  shows "computeFft K M env s input outp n
         = Inr (s\<lparr>fft_in := windowed input (hann_window M n) n, fft_out := spectrum K M c input n\<rparr>,
                map (\<lambda>k. magnitude M n (spectrum K M c input n ! k)) [0..<nat (min (int (length outp)) (n div 2))]
                  @ drop (nat (min (int (length outp)) (n div 2))) outp,
                Completed)"
proof -
  have re: "reallocate K M s n = Inr (s, True)"
    using held same by (intro reallocate_cached) simp_all
  from inv n same have "window s = hann_window M n" "int (length (fft_in s)) = n"
    "int (length (fft_out s)) = n div 2 + 1"
    by (auto simp: pipeline_inv_def)
  from computeFft_analyse [OF held this n input, of K outp]
  show ?thesis
    using n env by (simp add: computeFft_def re held)
qed

lemma computeFft_rebuilt:
  assumes n: "0 < n" and stale: "cfg s = None \<or> current_nfft s \<noteq> n" and alloc: "kiss_fftr_alloc K n = Some c"
    and input: "n \<le> int (length input)" and env: "input_ok env" "output_ok env"
  shows "computeFft K M env s input outp n
         = Inr (\<lparr>cfg = Some c, current_nfft = n, window = hann_window M n,
                 fft_out = spectrum K M c input n, fft_in = windowed input (hann_window M n) n\<rparr>,
                map (\<lambda>k. magnitude M n (spectrum K M c input n ! k)) [0..<nat (min (int (length outp)) (n div 2))]
                  @ drop (nat (min (int (length outp)) (n div 2))) outp,
                Completed)"
proof -
  let ?s1 = "\<lparr>cfg = Some c, current_nfft = n, window = hann_window M n,
               fft_out = resize (fft_out s) (n div 2 + 1) (Cpx (lit_0 M) (lit_0 M)),
               fft_in = resize (fft_in s) n (lit_0 M)\<rparr>"
  have re: "reallocate K M s n = Inr (?s1, True)"
    using n stale alloc by (intro reallocate_rebuilt) simp_all
  have "cfg ?s1 = Some c" "window ?s1 = hann_window M n" "int (length (fft_in ?s1)) = n"
    "int (length (fft_out ?s1)) = n div 2 + 1"
    using n by simp_all
  from computeFft_analyse [OF this n input, of K outp]
  show ?thesis
    using n env by (simp add: computeFft_def re)
qed

lemma computeFft_completed:
  assumes inv: "pipeline_inv K M s" and n: "0 < n" and alloc: "kiss_fftr_alloc K n = Some c"
    and input: "n \<le> int (length input)" and env: "input_ok env" "output_ok env"
  shows "computeFft K M env s input outp n
         = Inr (\<lparr>cfg = Some c, current_nfft = n, window = hann_window M n,
                 fft_out = spectrum K M c input n, fft_in = windowed input (hann_window M n) n\<rparr>,
                map (\<lambda>k. magnitude M n (spectrum K M c input n ! k)) [0..<nat (min (int (length outp)) (n div 2))]
                  @ drop (nat (min (int (length outp)) (n div 2))) outp,
                Completed)"
proof (cases "cfg s = None \<or> current_nfft s \<noteq> n")
  case True
  from computeFft_rebuilt [OF n True alloc input env] show ?thesis .
next
  case False
  then have held: "cfg s \<noteq> None" and same: "current_nfft s = n" by simp_all
  with inv alloc have c: "cfg s = Some c"
    by (auto simp: pipeline_inv_def)
  with inv same have "s\<lparr>fft_in := windowed input (hann_window M n) n, fft_out := spectrum K M c input n\<rparr>
      = \<lparr>cfg = Some c, current_nfft = n, window = hann_window M n,
                 fft_out = spectrum K M c input n, fft_in = windowed input (hann_window M n) n\<rparr>"
    using n by (cases s) (auto simp: pipeline_inv_def)
  with computeFft_cached [OF inv n c same input env, of outp] show ?thesis by simp
qed

lemma window_loop_length:
  "window_loop inData win n i fin = Inr f \<Longrightarrow> length f = length fin"
proof (induction inData win n i fin rule: window_loop.induct)
  case (1 inData win n i fin)
  from "1.prems" show ?case
    apply (subst (asm) window_loop.simps)
    apply (auto split: if_splits sum.splits simp: wr_def dest!: "1.IH" [rotated -1])
    done
qed

lemma pipeline_inv_initial: "pipeline_inv K M initial_globals"
  by (simp add: pipeline_inv_def initial_globals_def)

lemma pipeline_inv_cleanup: "pipeline_inv K M s \<Longrightarrow> pipeline_inv K M (cleanupFft s)"
  by (simp add: pipeline_inv_def cleanupFft_def Let_def)

lemma pipeline_inv_call:
  assumes inv: "pipeline_inv K M s" and call: "computeFft K M env s input outp n = Inr (s', outp', e)"
  shows "pipeline_inv K M s'"
proof (cases "n \<le> 0")
  case True
  with call inv show ?thesis by (simp add: computeFft_def)
next
  case n: False
  show ?thesis
  proof (cases "cfg s = None \<or> current_nfft s \<noteq> n")
    case stale: True
    show ?thesis
    proof (cases "kiss_fftr_alloc K n")
      case None
      from reallocate_failed [OF stale None, of M] call n have "s' = s\<lparr>cfg := None\<rparr>"
        by (simp add: computeFft_def)
      with inv show ?thesis by (simp add: pipeline_inv_def)
    next
      case (Some c)
      let ?s1 = "\<lparr>cfg = Some c, current_nfft = n, window = hann_window M n,
               fft_out = resize (fft_out s) (n div 2 + 1) (Cpx (lit_0 M) (lit_0 M)),
               fft_in = resize (fft_in s) n (lit_0 M)\<rparr>"
      have re: "reallocate K M s n = Inr (?s1, True)"
        using n stale Some by (intro reallocate_rebuilt) simp_all
      have inv1: "pipeline_inv K M ?s1"
        using n Some by (simp add: pipeline_inv_def)
      from call n re have "s' = ?s1 \<or> (\<exists>f. window_loop input (hann_window M n) n 0 (resize (fft_in s) n (lit_0 M)) = Inr f
          \<and> s' = ?s1\<lparr>fft_in := f, fft_out := map (kiss_fftr K c f) [0..<nat (n div 2 + 1)]\<rparr>)"
        by (auto simp: computeFft_def Let_def split: if_splits sum.splits)
      then show ?thesis
      proof
        assume "s' = ?s1" with inv1 show ?thesis by simp
      next
        assume "\<exists>f. window_loop input (hann_window M n) n 0 (resize (fft_in s) n (lit_0 M)) = Inr f
          \<and> s' = ?s1\<lparr>fft_in := f, fft_out := map (kiss_fftr K c f) [0..<nat (n div 2 + 1)]\<rparr>"
        then obtain f where f: "window_loop input (hann_window M n) n 0 (resize (fft_in s) n (lit_0 M)) = Inr f"
          and s': "s' = ?s1\<lparr>fft_in := f, fft_out := map (kiss_fftr K c f) [0..<nat (n div 2 + 1)]\<rparr>"
          by blast
        from window_loop_length [OF f] have "length f = nat n" by simp
        with s' n Some show ?thesis by (simp add: pipeline_inv_def)
      qed
    qed
  next
    case False
    then have held: "cfg s \<noteq> None" and same: "current_nfft s = n" by simp_all
    have re: "reallocate K M s n = Inr (s, True)"
      using held same by (rule reallocate_cached)
    from held obtain c where c: "cfg s = Some c" by auto
    from call n re c have "s' = s \<or> (\<exists>f. window_loop input (window s) n 0 (fft_in s) = Inr f
          \<and> s' = s\<lparr>fft_in := f, fft_out := map (kiss_fftr K c f) [0..<length (fft_out s)]\<rparr>)"
      by (auto simp: computeFft_def Let_def split: if_splits sum.splits)
    then show ?thesis
    proof
      assume "s' = s" with inv show ?thesis by simp
    next
      assume "\<exists>f. window_loop input (window s) n 0 (fft_in s) = Inr f
          \<and> s' = s\<lparr>fft_in := f, fft_out := map (kiss_fftr K c f) [0..<length (fft_out s)]\<rparr>"
      then obtain f where f: "window_loop input (window s) n 0 (fft_in s) = Inr f"
        and s': "s' = s\<lparr>fft_in := f, fft_out := map (kiss_fftr K c f) [0..<length (fft_out s)]\<rparr>"
        by blast
      from window_loop_length [OF f] have "length f = length (fft_in s)" .
      with s' inv show ?thesis by (simp add: pipeline_inv_def)
    qed
  qed
qed

lemma reachable_inv: "reachable K M s \<Longrightarrow> pipeline_inv K M s"
  by (induction rule: reachable.induct)
     (auto intro: pipeline_inv_initial pipeline_inv_cleanup pipeline_inv_call)

section \<open>Invalid sizes and cleanup\<close>

text \<open>
  C8. A call with \<open>nfft \<le> 0\<close> does nothing: it raises no fault, the output array is
  returned as it was, and the configuration, the cached size and the three buffers
  are unchanged.
\<close>

theorem computeFft_invalid_size_noop:
  "n \<le> 0 \<Longrightarrow> computeFft K M env s input outp n = Inr (s, outp, InvalidSize)"
  by (simp add: computeFft_def)

theorem computeFft_invalid_size_noop_witness:
  "(-3 :: int) \<le> 0 \<and>
   computeFft \<lparr>kiss_fftr_alloc = (\<lambda>n. Some n), kiss_fftr = (\<lambda>c xs k. Cpx 0 0)\<rparr>
     \<lparr>cosf = (\<lambda>x. x), sqrtf = (\<lambda>x. x), M_PI = 3, float_of_int = rat_of_int, double_of_int = rat_of_int,
      double_of_float = (\<lambda>x. x), float_of_double = (\<lambda>x. x), lit_0 = 0, lit_half = 1 / 2, lit_1 = 1, lit_2 = 2\<rparr>
     \<lparr>input_ok = True, output_ok = True\<rparr>
     \<lparr>cfg = Some (8 :: int), current_nfft = 8, window = [1, 2 :: rat], fft_out = [], fft_in = [5]\<rparr>
     [1, 2, 3] [7, 7] (-3)
   = Inr (\<lparr>cfg = Some 8, current_nfft = 8, window = [1, 2], fft_out = [], fft_in = [5]\<rparr>, [7, 7], InvalidSize)"
  using computeFft_invalid_size_noop [of "-3"] by simp

text \<open>
  C9. Cleanup leaves no configuration and the cached size 0, whether a configuration
  was held or not; it touches nothing else; and a second cleanup changes nothing.
\<close>

theorem cleanupFft_idempotent:
  "cfg (cleanupFft s) = None \<and> current_nfft (cleanupFft s) = 0
   \<and> cleanupFft (s\<lparr>cfg := None\<rparr>) = s\<lparr>cfg := None, current_nfft := 0\<rparr>
   \<and> cleanupFft (cleanupFft s) = cleanupFft s
   \<and> window (cleanupFft s) = window s \<and> fft_in (cleanupFft s) = fft_in s
   \<and> fft_out (cleanupFft s) = fft_out s"
  by (simp add: cleanupFft_def Let_def)

section \<open>A first call on exact data\<close>

lemma exact_alloc_8: "kiss_fftr_alloc exact_kissfft 8 = Some 8"
  by (simp add: exact_kissfft_def)

lemma exact_alloc_7: "kiss_fftr_alloc exact_kissfft 7 = None"
  by (simp add: exact_kissfft_def)

lemma exact_alloc_4: "kiss_fftr_alloc exact_kissfft 4 = Some 4"
  by (simp add: exact_kissfft_def)

lemma length_impulse: "int (length impulse) = 8"
  by (simp add: impulse_def)

lemma exact_first_call:
  "computeFft exact_kissfft exact_libm accessible initial_globals impulse [9, 9, 9] 8
   = Inr (state_8,
          map (\<lambda>k. magnitude exact_libm 8 (spectrum exact_kissfft exact_libm 8 impulse 8 ! k))
            [0..<nat (min (int (length [9, 9, 9 :: real])) (8 div 2))]
          @ drop (nat (min (int (length [9, 9, 9 :: real])) (8 div 2))) [9, 9, 9],
          Completed)"
  unfolding state_8_def
  by (rule computeFft_completed)
     (simp_all add: pipeline_inv_initial exact_alloc_8 length_impulse accessible_def)

lemma exact_reachable_8: "reachable exact_kissfft exact_libm state_8"
  by (rule reachable.call [OF reachable.start exact_first_call])

lemma state_8_fields:
  "cfg state_8 = Some 8" "current_nfft state_8 = 8"
  "window state_8 = hann_window exact_libm 8"
  "fft_out state_8 = spectrum exact_kissfft exact_libm 8 impulse 8"
  "fft_in state_8 = windowed impulse (hann_window exact_libm 8) 8"
  by (simp_all add: state_8_def)

section \<open>Which cells a call reads and writes\<close>

lemma windowed_cong:
  assumes "take (nat n) inData' = take (nat n) inData"
  shows "windowed inData' win n = windowed inData win n"
proof -
  have "windowed inData' win n = windowed (take (nat n) inData') win n"
    by (simp only: windowed_take)
  also have "\<dots> = windowed (take (nat n) inData) win n"
    by (simp only: assms)
  also have "\<dots> = windowed inData win n"
    by (simp only: windowed_take)
  finally show ?thesis .
qed

lemma spectrum_cong:
  assumes "take (nat n) inData' = take (nat n) inData"
  shows "spectrum K M c inData' n = spectrum K M c inData n"
  by (simp only: spectrum_def windowed_cong [OF assms])

lemma take_length_le:
  assumes "take (nat n) inData' = take (nat n) inData" "n \<le> int (length inData)"
  shows "n \<le> int (length inData')"
proof -
  from assms(1) have "length (take (nat n) inData') = length (take (nat n) inData)" by simp
  with assms(2) show ?thesis by simp
qed

text \<open>
  C2. A call with \<open>0 < n\<close> that reaches the magnitude stage (the state is reachable, a
  configuration for \<open>n\<close> can be had, both arrays are accessible and the input holds
  at least \<open>n\<close> samples) returns without a fault. With
  \<open>bins = min (length output) (n div 2)\<close>, the output array keeps its length, its
  first \<open>bins\<close> cells hold the magnitudes of the bins \<open>0 .. bins - 1\<close>, every cell from
  \<open>bins\<close> on is as it was, and the result is the same for every input array that
  agrees with this one on its first \<open>n\<close> elements.
\<close>

theorem computeFft_writes_bins:
  assumes reach: "reachable K M s" and n: "0 < n" and alloc: "kiss_fftr_alloc K n = Some c"
    and input: "n \<le> int (length input)" and env: "input_ok env" "output_ok env"
  shows "\<exists>s' outp'. computeFft K M env s input outp n = Inr (s', outp', Completed)
           \<and> length outp' = length outp
           \<and> take (nat (min (int (length outp)) (n div 2))) outp'
               = map (\<lambda>k. magnitude M n (fft_out s' ! k)) [0..<nat (min (int (length outp)) (n div 2))]
           \<and> drop (nat (min (int (length outp)) (n div 2))) outp'
               = drop (nat (min (int (length outp)) (n div 2))) outp
           \<and> (\<forall>input'. take (nat n) input' = take (nat n) input \<longrightarrow>
                 computeFft K M env s input' outp n = Inr (s', outp', Completed))"
proof -
  from reach have inv: "pipeline_inv K M s" by (rule reachable_inv)
  note compl = computeFft_completed [OF inv n alloc _ env]
  have same: "computeFft K M env s input' outp n =
        Inr (\<lparr>cfg = Some c, current_nfft = n, window = hann_window M n,
               fft_out = spectrum K M c input n, fft_in = windowed input (hann_window M n) n\<rparr>,
             map (\<lambda>k. magnitude M n (spectrum K M c input n ! k)) [0..<nat (min (int (length outp)) (n div 2))]
               @ drop (nat (min (int (length outp)) (n div 2))) outp, Completed)"
    if eq: "take (nat n) input' = take (nat n) input" for input'
  proof -
    from eq input have "n \<le> int (length input')" by (rule take_length_le)
    from compl [OF this, of outp] show ?thesis
      by (simp only: windowed_cong [OF eq] spectrum_cong [OF eq])
  qed
  let ?s' = "\<lparr>cfg = Some c, current_nfft = n, window = hann_window M n,
               fft_out = spectrum K M c input n, fft_in = windowed input (hann_window M n) n\<rparr>"
  let ?bins = "nat (min (int (length outp)) (n div 2))"
  let ?outp' = "map (\<lambda>k. magnitude M n (spectrum K M c input n ! k)) [0..<?bins] @ drop ?bins outp"
  have call: "computeFft K M env s input outp n = Inr (?s', ?outp', Completed)"
    by (rule compl [OF input])
  have len: "length ?outp' = length outp"
    by simp
  have written: "take ?bins ?outp' = map (\<lambda>k. magnitude M n (fft_out ?s' ! k)) [0..<?bins]"
    by simp
  have kept: "drop ?bins ?outp' = drop ?bins outp"
    by simp
  have indep: "\<forall>input'. take (nat n) input' = take (nat n) input \<longrightarrow>
                 computeFft K M env s input' outp n = Inr (?s', ?outp', Completed)"
    by (intro allI impI) (rule same)
  show ?thesis
    by (rule exI [of _ ?s'], rule exI [of _ ?outp']) (intro conjI call len written kept indep)
qed

theorem computeFft_writes_bins_witness:
  "\<exists>s' outp'. computeFft exact_kissfft exact_libm accessible initial_globals impulse [9, 9, 9] 8
                  = Inr (s', outp', Completed)
     \<and> length outp' = 3 \<and> take 3 outp' = map (\<lambda>k. magnitude exact_libm 8 (fft_out s' ! k)) [0..<3]
     \<and> computeFft exact_kissfft exact_libm accessible initial_globals (impulse @ [5, 5]) [9, 9, 9] 8
                  = Inr (s', outp', Completed)"
proof -
  have "\<exists>s' outp'. computeFft exact_kissfft exact_libm accessible initial_globals impulse [9, 9, 9] 8
                  = Inr (s', outp', Completed)
     \<and> length outp' = length [9, 9, 9 :: real]
     \<and> take (nat (min (int (length [9, 9, 9 :: real])) (8 div 2))) outp'
         = map (\<lambda>k. magnitude exact_libm 8 (fft_out s' ! k)) [0..<nat (min (int (length [9, 9, 9 :: real])) (8 div 2))]
     \<and> drop (nat (min (int (length [9, 9, 9 :: real])) (8 div 2))) outp'
         = drop (nat (min (int (length [9, 9, 9 :: real])) (8 div 2))) [9, 9, 9]
     \<and> (\<forall>input'. take (nat 8) input' = take (nat 8) impulse \<longrightarrow>
           computeFft exact_kissfft exact_libm accessible initial_globals input' [9, 9, 9] 8
             = Inr (s', outp', Completed))"
    by (rule computeFft_writes_bins [where c = 8])
       (simp_all add: reachable.start exact_alloc_8 length_impulse accessible_def)
  then obtain s' outp' where
    call: "computeFft exact_kissfft exact_libm accessible initial_globals impulse [9, 9, 9] 8
             = Inr (s', outp', Completed)"
    and len: "length outp' = length [9, 9, 9 :: real]"
    and written: "take (nat (min (int (length [9, 9, 9 :: real])) (8 div 2))) outp'
         = map (\<lambda>k. magnitude exact_libm 8 (fft_out s' ! k)) [0..<nat (min (int (length [9, 9, 9 :: real])) (8 div 2))]"
    and indep: "\<forall>input'. take (nat 8) input' = take (nat 8) impulse \<longrightarrow>
       computeFft exact_kissfft exact_libm accessible initial_globals input' [9, 9, 9] 8
         = Inr (s', outp', Completed)"
    by blast
  from len have len': "length outp' = 3" by simp
  from written have written': "take 3 outp' = map (\<lambda>k. magnitude exact_libm 8 (fft_out s' ! k)) [0..<3]"
    by simp
  have "take (nat 8) (impulse @ [5, 5]) = take (nat 8) impulse"
    by (simp add: impulse_def)
  with indep have "computeFft exact_kissfft exact_libm accessible initial_globals (impulse @ [5, 5]) [9, 9, 9] 8
        = Inr (s', outp', Completed)"
    by blast
  with call len' written' show ?thesis by blast
qed

section \<open>The values written\<close>

text \<open>
  C5. In such a call, for every index \<open>i\<close> below \<open>bins\<close>: the windowed buffer holds
  \<open>input[k] * window[k]\<close> for \<open>k < n\<close>, the spectrum cell \<open>i\<close> is the bin \<open>i\<close> that
  \<^verbatim>\<open>kiss_fftr\<close> produced from the windowed buffer, and the output cell \<open>i\<close> is
  \<^verbatim>\<open>sqrtf(re * re + im * im)\<close> of that bin divided by the conversion to \<^verbatim>\<open>float\<close> of
  the integer quotient \<open>n div 2\<close>.
\<close>

theorem computeFft_magnitudes:
  assumes reach: "reachable K M s" and n: "0 < n" and alloc: "kiss_fftr_alloc K n = Some c"
    and input: "n \<le> int (length input)" and env: "input_ok env" "output_ok env"
    and i: "int i < min (int (length outp)) (n div 2)"
  shows "\<exists>s' outp'. computeFft K M env s input outp n = Inr (s', outp', Completed)
           \<and> fft_in s' = map (\<lambda>k. input ! k * window s' ! k) [0..<nat n]
           \<and> fft_out s' ! i = kiss_fftr K c (fft_in s') i
           \<and> outp' ! i = sqrtf M (cpx_r (fft_out s' ! i) * cpx_r (fft_out s' ! i)
                                   + cpx_i (fft_out s' ! i) * cpx_i (fft_out s' ! i))
                          / float_of_int M (n div 2)"
proof -
  from reach have inv: "pipeline_inv K M s" by (rule reachable_inv)
  let ?s' = "\<lparr>cfg = Some c, current_nfft = n, window = hann_window M n,
               fft_out = spectrum K M c input n, fft_in = windowed input (hann_window M n) n\<rparr>"
  let ?bins = "nat (min (int (length outp)) (n div 2))"
  let ?outp' = "map (\<lambda>k. magnitude M n (spectrum K M c input n ! k)) [0..<?bins] @ drop ?bins outp"
  from i have i1: "i < ?bins" and i2: "i < nat (n div 2 + 1)"
    by linarith+
  have call: "computeFft K M env s input outp n = Inr (?s', ?outp', Completed)"
    by (rule computeFft_completed [OF inv n alloc input env])
  have fin: "fft_in ?s' = map (\<lambda>k. input ! k * window ?s' ! k) [0..<nat n]"
    by (simp add: windowed_def)
  have bin: "fft_out ?s' ! i = kiss_fftr K c (fft_in ?s') i"
    using i2 by (simp add: spectrum_def)
  have "?outp' ! i = magnitude M n (spectrum K M c input n ! i)"
    using i1 by (simp add: nth_append)
  then have mag: "?outp' ! i = sqrtf M (cpx_r (fft_out ?s' ! i) * cpx_r (fft_out ?s' ! i)
                                   + cpx_i (fft_out ?s' ! i) * cpx_i (fft_out ?s' ! i))
                          / float_of_int M (n div 2)"
    by (simp add: magnitude_def)
  show ?thesis
    by (rule exI [of _ ?s'], rule exI [of _ ?outp']) (intro conjI call fin bin mag)
qed

theorem computeFft_magnitudes_witness:
  "\<exists>s' outp'. computeFft exact_kissfft exact_libm accessible initial_globals impulse [9, 9, 9] 8
                  = Inr (s', outp', Completed)
     \<and> outp' ! 2 = sqrt (cpx_r (fft_out s' ! 2) * cpx_r (fft_out s' ! 2)
                          + cpx_i (fft_out s' ! 2) * cpx_i (fft_out s' ! 2)) / 4"
proof -
  have "\<exists>s' outp'. computeFft exact_kissfft exact_libm accessible initial_globals impulse [9, 9, 9] 8
                  = Inr (s', outp', Completed)
           \<and> fft_in s' = map (\<lambda>k. impulse ! k * window s' ! k) [0..<nat 8]
           \<and> fft_out s' ! 2 = kiss_fftr exact_kissfft 8 (fft_in s') 2
           \<and> outp' ! 2 = sqrtf exact_libm (cpx_r (fft_out s' ! 2) * cpx_r (fft_out s' ! 2)
                                   + cpx_i (fft_out s' ! 2) * cpx_i (fft_out s' ! 2))
                          / float_of_int exact_libm (8 div 2)"
    by (rule computeFft_magnitudes [where c = 8])
       (simp_all add: reachable.start exact_alloc_8 length_impulse accessible_def)
  then obtain s' outp' where
    call: "computeFft exact_kissfft exact_libm accessible initial_globals impulse [9, 9, 9] 8
             = Inr (s', outp', Completed)"
    and mag: "outp' ! 2 = sqrtf exact_libm (cpx_r (fft_out s' ! 2) * cpx_r (fft_out s' ! 2)
                          + cpx_i (fft_out s' ! 2) * cpx_i (fft_out s' ! 2)) / float_of_int exact_libm (8 div 2)"
    by blast
  from mag have "outp' ! 2 = sqrt (cpx_r (fft_out s' ! 2) * cpx_r (fft_out s' ! 2)
                          + cpx_i (fft_out s' ! 2) * cpx_i (fft_out s' ! 2)) / 4"
    by (simp add: exact_libm_def)
  with call show ?thesis by blast
qed

section \<open>The window table\<close>

lemma computeFft_window:
  assumes "reallocate K M s n = Inr (s1, held)" and "computeFft K M env s input outp n = Inr (s', outp', e)"
    and "0 < n"
  shows "window s' = window s1"
  using assms by (auto simp: computeFft_def Let_def split: if_splits sum.splits bool.splits option.splits)

text \<open>
  C6. For \<open>0 < n\<close> the reallocation step never faults. When it rebuilds (no
  configuration is held or the cached size differs, and the allocation succeeds) the
  window has \<open>n\<close> coefficients and the one at index \<open>i\<close> is
  \<^verbatim>\<open>0.5f * (1.0f - cosf(2.0f * M_PI * i / (n - 1)))\<close>, a term in \<open>n\<close> and \<open>i\<close> alone; in
  every other case the window is the one of the state before. No later step of the
  call changes it.
\<close>

theorem window_rebuilt_with_configuration:
  assumes n: "0 < n"
  shows "\<exists>s1 held. reallocate K M s n = Inr (s1, held)
           \<and> (if (cfg s = None \<or> current_nfft s \<noteq> n) \<and> kiss_fftr_alloc K n \<noteq> None
               then length (window s1) = nat n \<and>
                    (\<forall>i<nat n. window s1 ! i =
                       lit_half M * (lit_1 M - cosf M (float_of_double M
                         (double_of_float M (lit_2 M) * M_PI M * double_of_int M (int i) / double_of_int M (n - 1)))))
               else window s1 = window s)
           \<and> (\<forall>env input outp s' outp' e.
                 computeFft K M env s input outp n = Inr (s', outp', e) \<longrightarrow> window s' = window s1)"
proof (cases "cfg s = None \<or> current_nfft s \<noteq> n")
  case stale: True
  show ?thesis
  proof (cases "kiss_fftr_alloc K n")
    case None
    from reallocate_failed [OF stale None, of M]
    have re: "reallocate K M s n = Inr (s\<lparr>cfg := None\<rparr>, False)" .
    have later: "\<forall>env input outp s' outp' e.
        computeFft K M env s input outp n = Inr (s', outp', e) \<longrightarrow> window s' = window (s\<lparr>cfg := None\<rparr>)"
      using computeFft_window [OF re _ n] by blast
    from None have "\<not> ((cfg s = None \<or> current_nfft s \<noteq> n) \<and> kiss_fftr_alloc K n \<noteq> None)" by simp
    then have c: "((cfg s = None \<or> current_nfft s \<noteq> n) \<and> kiss_fftr_alloc K n \<noteq> None) = False" by simp
    have same: "window (s\<lparr>cfg := None\<rparr>) = window s" by simp
    show ?thesis
      apply (rule exI [of _ "s\<lparr>cfg := None\<rparr>"], rule exI [of _ False])
      apply (simp only: c if_False)
      apply (intro conjI re later same)
      done
  next
    case (Some c)
    let ?s1 = "\<lparr>cfg = Some c, current_nfft = n, window = hann_window M n,
               fft_out = resize (fft_out s) (n div 2 + 1) (Cpx (lit_0 M) (lit_0 M)),
               fft_in = resize (fft_in s) n (lit_0 M)\<rparr>"
    have re: "reallocate K M s n = Inr (?s1, True)"
      using n stale Some by (intro reallocate_rebuilt) simp_all
    have later: "\<forall>env input outp s' outp' e.
        computeFft K M env s input outp n = Inr (s', outp', e) \<longrightarrow> window s' = window ?s1"
      using computeFft_window [OF re _ n] by blast
    have tab: "length (window ?s1) = nat n \<and>
                    (\<forall>i<nat n. window ?s1 ! i =
                       lit_half M * (lit_1 M - cosf M (float_of_double M
                         (double_of_float M (lit_2 M) * M_PI M * double_of_int M (int i) / double_of_int M (n - 1)))))"
      by (simp add: hann_window_def hann_coeff_def)
    from Some stale have c: "((cfg s = None \<or> current_nfft s \<noteq> n) \<and> kiss_fftr_alloc K n \<noteq> None) = True" by simp
    show ?thesis
      apply (rule exI [of _ ?s1], rule exI [of _ True])
      apply (simp only: c if_True)
      apply (intro conjI re later tab [THEN conjunct1] tab [THEN conjunct2])
      done
  qed
next
  case False
  then have held: "cfg s \<noteq> None" and same: "current_nfft s = n" by simp_all
  have re: "reallocate K M s n = Inr (s, True)"
    using held same by (rule reallocate_cached)
  have later: "\<forall>env input outp s' outp' e.
        computeFft K M env s input outp n = Inr (s', outp', e) \<longrightarrow> window s' = window s"
    using computeFft_window [OF re _ n] by blast
  from False have c: "((cfg s = None \<or> current_nfft s \<noteq> n) \<and> kiss_fftr_alloc K n \<noteq> None) = False" by simp
  show ?thesis
    apply (rule exI [of _ s], rule exI [of _ True])
    apply (simp only: c if_False)
    apply (intro conjI re later refl)
    done
qed

theorem window_rebuilt_with_configuration_witness:
  "\<exists>s1 held. reallocate exact_kissfft exact_libm initial_globals 8 = Inr (s1, held)
     \<and> length (window s1) = 8
     \<and> window s1 ! 2 = 1 / 2 * (1 - cos (2 * pi * 2 / 7))"
proof -
  from window_rebuilt_with_configuration [where n = 8 and K = exact_kissfft and M = exact_libm
      and s = initial_globals]
  obtain s1 held where re: "reallocate exact_kissfft exact_libm initial_globals 8 = Inr (s1, held)"
    and tab: "if (cfg (initial_globals :: (int, real) fft_globals) = None
                  \<or> current_nfft (initial_globals :: (int, real) fft_globals) \<noteq> 8)
                 \<and> kiss_fftr_alloc exact_kissfft 8 \<noteq> None
               then length (window s1) = nat 8 \<and>
                    (\<forall>i<nat 8. window s1 ! i =
                       lit_half exact_libm * (lit_1 exact_libm - cosf exact_libm (float_of_double exact_libm
                         (double_of_float exact_libm (lit_2 exact_libm) * M_PI exact_libm
                            * double_of_int exact_libm (int i) / double_of_int exact_libm (8 - 1)))))
               else window s1 = window (initial_globals :: (int, real) fft_globals)"
    by auto
  from tab have len: "length (window s1) = 8"
    and all: "\<forall>i<8. window s1 ! i =
                       lit_half exact_libm * (lit_1 exact_libm - cosf exact_libm (float_of_double exact_libm
                         (double_of_float exact_libm (lit_2 exact_libm) * M_PI exact_libm
                            * double_of_int exact_libm (int i) / double_of_int exact_libm (8 - 1))))"
    by (simp_all add: exact_alloc_8 initial_globals_def)
  from all have "window s1 ! 2 = 1 / 2 * (1 - cos (2 * pi * 2 / 7))"
    by (simp add: exact_libm_def)
  with re len show ?thesis by blast
qed

section \<open>Changing the size and changing it back\<close>

text \<open>
  C7. Let a call of size \<open>a\<close> be made in a reachable state, with accessible arrays, an
  input of at least \<open>a\<close> samples and a size \<open>a\<close> that can be allocated; let any call
  that returns follow it, of any size \<open>b\<close>. Then the first call completed, and a
  third call with the arguments of the first one completes with the output and the
  state the first one produced; given another output array of the same capacity, it
  writes the same magnitudes.
\<close>

theorem computeFft_reconfiguration:
  assumes reach: "reachable K M s0" and a: "0 < a" and alloc: "kiss_fftr_alloc K a = Some c"
    and input: "a \<le> int (length input)"
    and env1: "input_ok env1" "output_ok env1" and env3: "input_ok env3" "output_ok env3"
    and first: "computeFft K M env1 s0 input outp a = Inr (s1, out1, e1)"
    and second: "computeFft K M env2 s1 input2 outp2 b = Inr (s2, out2, e2)"
  shows "e1 = Completed \<and> computeFft K M env3 s2 input outp a = Inr (s1, out1, Completed)
         \<and> (\<forall>outp3. length outp3 = length outp \<longrightarrow>
               (\<exists>out3. computeFft K M env3 s2 input outp3 a = Inr (s1, out3, Completed)
                  \<and> take (nat (min (int (length outp)) (a div 2))) out3
                      = take (nat (min (int (length outp)) (a div 2))) out1))"
proof -
  from reach first have reach1: "reachable K M s1" by (rule reachable.call)
  from reach1 second have reach2: "reachable K M s2" by (rule reachable.call)
  from computeFft_completed [OF reachable_inv [OF reach] a alloc input env1, of outp] first
  have e1: "e1 = Completed"
    and s1: "s1 = \<lparr>cfg = Some c, current_nfft = a, window = hann_window M a,
                 fft_out = spectrum K M c input a, fft_in = windowed input (hann_window M a) a\<rparr>"
    and out1: "out1 = map (\<lambda>k. magnitude M a (spectrum K M c input a ! k)) [0..<nat (min (int (length outp)) (a div 2))]
                  @ drop (nat (min (int (length outp)) (a div 2))) outp"
    by simp_all
  from computeFft_completed [OF reachable_inv [OF reach2] a alloc input env3, of outp]
  have third: "computeFft K M env3 s2 input outp a = Inr (s1, out1, Completed)"
    by (simp only: s1 out1)
  have other: "\<exists>out3. computeFft K M env3 s2 input outp3 a = Inr (s1, out3, Completed)
                  \<and> take (nat (min (int (length outp)) (a div 2))) out3
                      = take (nat (min (int (length outp)) (a div 2))) out1"
    if len: "length outp3 = length outp" for outp3
  proof -
    let ?bins = "nat (min (int (length outp)) (a div 2))"
    let ?mags = "map (\<lambda>k. magnitude M a (spectrum K M c input a ! k)) [0..<?bins]"
    from computeFft_completed [OF reachable_inv [OF reach2] a alloc input env3, of outp3]
    have "computeFft K M env3 s2 input outp3 a = Inr (s1, ?mags @ drop ?bins outp3, Completed)"
      by (simp only: s1 len)
    moreover have "take ?bins (?mags @ drop ?bins outp3) = take ?bins out1"
      by (simp add: out1)
    ultimately show ?thesis by blast
  qed
  from e1 third other show ?thesis by blast
qed

lemma exact_second_call:
  "computeFft exact_kissfft exact_libm accessible state_8 [1, 2, 3, 4] [9, 9, 9] 4
   = Inr (\<lparr>cfg = Some 4, current_nfft = 4, window = hann_window exact_libm 4,
           fft_out = spectrum exact_kissfft exact_libm 4 [1, 2, 3, 4] 4,
           fft_in = windowed [1, 2, 3, 4] (hann_window exact_libm 4) 4\<rparr>,
          map (\<lambda>k. magnitude exact_libm 4 (spectrum exact_kissfft exact_libm 4 [1, 2, 3, 4] 4 ! k))
            [0..<nat (min (int (length [9, 9, 9 :: real])) (4 div 2))]
          @ drop (nat (min (int (length [9, 9, 9 :: real])) (4 div 2))) [9, 9, 9],
          Completed)"
  by (rule computeFft_completed)
     (simp_all add: reachable_inv [OF exact_reachable_8] exact_alloc_4 accessible_def)

theorem computeFft_reconfiguration_witness:
  "computeFft exact_kissfft exact_libm accessible
     \<lparr>cfg = Some 4, current_nfft = 4, window = hann_window exact_libm 4,
      fft_out = spectrum exact_kissfft exact_libm 4 [1, 2, 3, 4] 4,
      fft_in = windowed [1, 2, 3, 4] (hann_window exact_libm 4) 4\<rparr>
     impulse [9, 9, 9] 8
   = Inr (state_8,
          map (\<lambda>k. magnitude exact_libm 8 (spectrum exact_kissfft exact_libm 8 impulse 8 ! k))
            [0..<nat (min (int (length [9, 9, 9 :: real])) (8 div 2))]
          @ drop (nat (min (int (length [9, 9, 9 :: real])) (8 div 2))) [9, 9, 9],
          Completed)"
  using computeFft_reconfiguration [OF reachable.start _ exact_alloc_8 _ _ _ _ _ exact_first_call exact_second_call,
      where ?env3.0 = accessible]
  by (simp add: length_impulse accessible_def)

section \<open>Allocation failure\<close>

text \<open>
  C3, as the code has it. When a configuration has to be allocated (none is held, or
  the size differs from the cached one) and \<^verbatim>\<open>kiss_fftr_alloc\<close> returns the null pointer,
  the call returns at line 27: the output array is untouched and no configuration is
  held afterwards. The cached size and the three buffers keep the values they had;
  the size is not reset. The test \<^verbatim>\<open>cfg == nullptr\<close> of line 21 makes the next call
  allocate again and rebuild all three buffers, whatever its size, also the size that
  is still cached.
\<close>

theorem alloc_failure_drops_configuration:
  assumes n: "0 < n" and stale: "cfg s = None \<or> current_nfft s \<noteq> n"
    and failed: "kiss_fftr_alloc K n = None"
  shows "computeFft K M env s input outp n = Inr (s\<lparr>cfg := None\<rparr>, outp, AllocationFailed)
         \<and> (\<forall>n' c env' input' outp'.
               0 < n' \<and> kiss_fftr_alloc K n' = Some c \<and> n' \<le> int (length input')
               \<and> input_ok env' \<and> output_ok env' \<longrightarrow>
               (\<exists>out'. computeFft K M env' (s\<lparr>cfg := None\<rparr>) input' outp' n'
                  = Inr (\<lparr>cfg = Some c, current_nfft = n', window = hann_window M n',
                          fft_out = spectrum K M c input' n',
                          fft_in = windowed input' (hann_window M n') n'\<rparr>, out', Completed)))"
proof -
  have this_call: "computeFft K M env s input outp n = Inr (s\<lparr>cfg := None\<rparr>, outp, AllocationFailed)"
    using n by (simp add: computeFft_def reallocate_failed [OF stale failed])
  have next_call: "\<exists>out'. computeFft K M env' (s\<lparr>cfg := None\<rparr>) input' outp' n'
                  = Inr (\<lparr>cfg = Some c, current_nfft = n', window = hann_window M n',
                          fft_out = spectrum K M c input' n',
                          fft_in = windowed input' (hann_window M n') n'\<rparr>, out', Completed)"
    if "0 < n'" "kiss_fftr_alloc K n' = Some c" "n' \<le> int (length input')" "input_ok env'" "output_ok env'"
    for n' c env' input' outp'
  proof -
    have "cfg (s\<lparr>cfg := None\<rparr>) = None \<or> current_nfft (s\<lparr>cfg := None\<rparr>) \<noteq> n'" by simp
    from computeFft_rebuilt [OF that(1) this that(2-5), of M outp'] show ?thesis by blast
  qed
  from this_call next_call show ?thesis by blast
qed

theorem alloc_failure_drops_configuration_witness:
  "computeFft exact_kissfft exact_libm accessible state_8 [1, 1, 1, 1, 1, 1, 1] [5, 5, 5] 7
   = Inr (state_8\<lparr>cfg := None\<rparr>, [5, 5, 5], AllocationFailed)"
proof -
  have "cfg state_8 = None \<or> current_nfft state_8 \<noteq> 7"
    by (simp add: state_8_fields)
  from alloc_failure_drops_configuration [OF _ this exact_alloc_7, of exact_libm accessible
      "[1, 1, 1, 1, 1, 1, 1]" "[5, 5, 5]"]
  show ?thesis by simp
qed

text \<open>
  C3, as the claim states it, fails: after a completed call of size 8, a call of size
  7 whose allocation fails leaves the cached size at 8, not at 0.
\<close>

theorem alloc_failure_size_not_reset:
  "computeFft exact_kissfft exact_libm accessible initial_globals impulse [9, 9, 9] 8
   = Inr (state_8,
          map (\<lambda>k. magnitude exact_libm 8 (spectrum exact_kissfft exact_libm 8 impulse 8 ! k))
            [0..<nat (min (int (length [9, 9, 9 :: real])) (8 div 2))]
          @ drop (nat (min (int (length [9, 9, 9 :: real])) (8 div 2))) [9, 9, 9],
          Completed)
   \<and> kiss_fftr_alloc exact_kissfft 7 = None
   \<and> computeFft exact_kissfft exact_libm accessible state_8 [1, 1, 1, 1, 1, 1, 1] [5, 5, 5] 7
   = Inr (state_8\<lparr>cfg := None\<rparr>, [5, 5, 5], AllocationFailed)
   \<and> cfg (state_8\<lparr>cfg := None\<rparr>) = None
   \<and> current_nfft (state_8\<lparr>cfg := None\<rparr>) = 8
   \<and> current_nfft (state_8\<lparr>cfg := None\<rparr>) \<noteq> 0"
proof -
  have "reallocate exact_kissfft exact_libm state_8 7 = Inr (state_8\<lparr>cfg := None\<rparr>, False)"
    by (rule reallocate_failed) (simp_all add: exact_alloc_7 state_8_fields)
  then have "computeFft exact_kissfft exact_libm accessible state_8 [1, 1, 1, 1, 1, 1, 1] [5, 5, 5] 7
     = Inr (state_8\<lparr>cfg := None\<rparr>, [5, 5, 5], AllocationFailed)"
    by (simp add: computeFft_def)
  with exact_first_call exact_alloc_7 show ?thesis
    by (simp add: state_8_fields)
qed

section \<open>Consistency of the buffers with the cached size\<close>

text \<open>
  C4, as the code has it. In every reachable state a configuration is held only with
  a cached size other than 0, and whenever the cached size is not 0 the window and
  the windowed buffer have that length and the complex spectrum has half that length
  plus one.
\<close>

theorem reachable_buffers_consistent:
  assumes "reachable K M s"
  shows "(cfg s \<noteq> None \<longrightarrow> current_nfft s \<noteq> 0) \<and>
         (current_nfft s \<noteq> 0 \<longrightarrow>
            int (length (window s)) = current_nfft s \<and>
            int (length (fft_in s)) = current_nfft s \<and>
            int (length (fft_out s)) = current_nfft s div 2 + 1)"
proof -
  from assms have "pipeline_inv K M s" by (rule reachable_inv)
  then show ?thesis by (auto simp: pipeline_inv_def)
qed

theorem reachable_buffers_consistent_witness:
  "reachable exact_kissfft exact_libm state_8 \<and> current_nfft state_8 = 8
   \<and> length (window state_8) = 8 \<and> length (fft_in state_8) = 8 \<and> length (fft_out state_8) = 5"
  using reachable_buffers_consistent [OF exact_reachable_8] exact_reachable_8
  by (simp add: state_8_fields)

text \<open>
  C4, as the claim states it, fails at two of the observation points it names. In the
  initial state the cached size is 0 and the complex spectrum is empty, not of length
  \<open>0 div 2 + 1\<close>. After cleanup the cached size is 0 and the vectors are what they
  were: here the window still has 8 elements.
\<close>

theorem initial_and_cleaned_buffers_inconsistent:
  "reachable exact_kissfft exact_libm initial_globals
   \<and> int (length (fft_out (initial_globals :: (int, real) fft_globals)))
       \<noteq> current_nfft (initial_globals :: (int, real) fft_globals) div 2 + 1
   \<and> reachable exact_kissfft exact_libm (cleanupFft state_8)
   \<and> int (length (window (cleanupFft state_8))) \<noteq> current_nfft (cleanupFft state_8)"
  using reachable.start [of exact_kissfft exact_libm] reachable.cleanup [OF exact_reachable_8]
  by (simp add: initial_globals_def cleanupFft_def state_8_fields)

section \<open>The generic butterfly, loop by loop\<close>

text \<open>
  Where no conversion wraps, the update of \<^verbatim>\<open>twidx\<close> is addition modulo the transform
  size, and each loop has a closed form. The bounds come from the decomposition
  \<open>fstride * m * p = nfft\<close> and from \<open>nfft \<le> 2 ^ 30\<close>, which holds of every
  configuration the program builds.
\<close>

lemma configured_for_bounds:
  assumes "configured_for n st"
  shows "0 < nfft st" and "nfft st \<le> 2 ^ 30"
proof -
  from assms have n: "n < 2 ^ 31" and pos: "0 < nfft st" and half: "nfft st = n div 2"
    by (simp_all add: configured_for_def jint_def)
  from pos show "0 < nfft st" .
  from n have "n < 2147483648" by simp
  then have "n div 2 \<le> 1073741824" by linarith
  with half show "nfft st \<le> 2 ^ 30" by simp
qed

lemma configured_for_table_6: "configured_for 12 table_6"
  by (simp add: configured_for_def jint_def table_6_def)

lemma to_int_id: "- (2 ^ 31) \<le> x \<Longrightarrow> x < 2 ^ 31 \<Longrightarrow> to_int x = x"
  by (simp add: to_int_def)

lemma to_size_t_id: "0 \<le> x \<Longrightarrow> x < 2 ^ 64 \<Longrightarrow> to_size_t x = x"
  by (simp add: to_size_t_def)

lemma next_twidx_mod:
  assumes N: "0 < N" "N \<le> 2 ^ 30" and t: "0 \<le> twidx" "twidx < N"
    and k: "0 \<le> k" "k < 2 ^ 31" and f: "0 \<le> fstride" and fk: "fstride * k < N"
  shows "next_twidx N fstride k twidx = (twidx + fstride * k) mod N"
proof -
  have fk0: "0 \<le> fstride * k" using f k by simp
  have k': "to_size_t k = k" using k by (intro to_size_t_id) simp_all
  have fk': "to_size_t (fstride * k) = fstride * k" using fk0 fk N by (intro to_size_t_id) simp_all
  have t': "to_size_t twidx = twidx" using t N by (intro to_size_t_id) simp_all
  have s': "to_size_t (twidx + fstride * k) = twidx + fstride * k"
    using t fk0 fk N by (intro to_size_t_id) simp_all
  have i': "to_int (twidx + fstride * k) = twidx + fstride * k"
    using t fk0 fk N by (intro to_int_id) simp_all
  show ?thesis
  proof (cases "twidx + fstride * k \<ge> N")
    case True
    then have r: "to_int (twidx + fstride * k - N) = twidx + fstride * k - N"
      using t fk N by (intro to_int_id) simp_all
    have "(twidx + fstride * k) mod N = (twidx + fstride * k - N) mod N"
      by simp
    also have "\<dots> = twidx + fstride * k - N"
      using True t fk by (intro mod_pos_pos_trivial) simp_all
    finally show ?thesis
      using True by (simp add: next_twidx_def k' fk' t' s' i' r)
  next
    case False
    then have "(twidx + fstride * k) mod N = twidx + fstride * k"
      using t fk0 by (intro mod_pos_pos_trivial) simp_all
    with False show ?thesis
      by (simp add: next_twidx_def k' fk' t' s' i')
  qed
qed

lemma twiddle_index_step:
  "(((q - 1) * fstride * k) mod N + fstride * k) mod N = (q * fstride * k) mod (N :: int)"
proof -
  have "(((q - 1) * fstride * k) mod N + fstride * k) mod N = ((q - 1) * fstride * k + fstride * k) mod N"
    by (simp add: mod_add_left_eq)
  also have "(q - 1) * fstride * k + fstride * k = q * fstride * k"
    by (simp add: algebra_simps)
  finally show ?thesis .
qed

lemma twiddle_loop_result:
  "1 \<le> q \<Longrightarrow> q \<le> p \<Longrightarrow> int (length scratch) = p \<Longrightarrow> 0 < nfft st \<Longrightarrow> nfft st \<le> 2 ^ 30 \<Longrightarrow>
   nfft st \<le> int (length (twiddles st)) \<Longrightarrow> 0 \<le> k \<Longrightarrow> k < 2 ^ 31 \<Longrightarrow> 0 \<le> fstride \<Longrightarrow>
   fstride * k < nfft st \<Longrightarrow> twidx = ((q - 1) * fstride * k) mod nfft st \<Longrightarrow>
   twiddle_loop st fstride p scratch k q twidx Fout
   = Inr (Fout(k := foldl (\<lambda>acc q'. C_ADDTO acc (C_MUL (scratch ! nat q')
                                   (twiddles st ! nat ((q' * fstride * k) mod nfft st))))
                     (Fout k) [q..p - 1]))"
proof (induction st fstride p scratch k q twidx Fout rule: twiddle_loop.induct)
  case (1 st fstride p scratch k q twidx Fout)
  let ?f = "\<lambda>acc q'. C_ADDTO acc (C_MUL (scratch ! nat q') (twiddles st ! nat ((q' * fstride * k) mod nfft st)))"
  note prems = "1.prems"
  show ?case
  proof (cases "q < p")
    case False
    with prems have "[q..p - 1] = []" by simp
    with False show ?thesis
      by (subst twiddle_loop.simps) simp
  next
    case True
    let ?t = "(q * fstride * k) mod nfft st"
    from prems have t: "0 \<le> twidx" "twidx < nfft st" by simp_all
    have nt: "next_twidx (nfft st) fstride k twidx = ?t"
      using next_twidx_mod [OF prems(4,5) t prems(7,8,9,10)] prems(11)
      by (simp add: twiddle_index_step)
    have t': "0 \<le> ?t" "?t < nfft st" using prems(4) by simp_all
    have r1: "rd scratch q = Inr (scratch ! nat q)"
      using True prems(1,3) by (simp add: rd_def)
    have r2: "rd (twiddles st) ?t = Inr (twiddles st ! nat ?t)"
      using t' prems(6) by (simp add: rd_def)
    have idx: "?t = ((q + 1 - 1) * fstride * k) mod nfft st" by simp
    from True prems have q1: "1 \<le> q + 1" "q + 1 \<le> p" by simp_all
    have ih: "twiddle_loop st fstride p scratch k (q + 1) ?t (Fout(k := ?f (Fout k) q))
              = Inr ((Fout(k := ?f (Fout k) q))(k := foldl ?f ((Fout(k := ?f (Fout k) q)) k) [q + 1..p - 1]))"
      by (rule "1.IH" [OF True nt [symmetric] r1, unfolded nt, OF r2 q1 prems(3,4,5,6,7,8,9,10) idx])
    from True have up: "[q..p - 1] = q # [q + 1..p - 1]"
      by (simp add: upto_rec1)
    show ?thesis
      by (subst twiddle_loop.simps) (simp add: True nt r1 r2 ih up Let_def)
  qed
qed

lemma decomposition_bounds:
  assumes "fstride * m * p = (N :: int)" "0 < N" "0 < m" "0 < p"
  shows "0 < fstride" and "m * p \<le> N"
proof -
  from assms(3,4) have mp: "0 < m * p" by simp
  from assms(1) have eq: "fstride * (m * p) = N" by (simp add: mult.assoc)
  with assms(2) have pos: "0 < fstride * (m * p)" by simp
  show f: "0 < fstride"
  proof (rule ccontr)
    assume "\<not> 0 < fstride"
    then have "fstride \<le> 0" by simp
    with mp have "fstride * (m * p) \<le> 0" by (simp add: mult_nonpos_nonneg)
    with pos show False by simp
  qed
  then have "1 * (m * p) \<le> fstride * (m * p)"
    using mp by (intro mult_right_mono) simp_all
  with eq show "m * p \<le> N" by simp
qed

lemma lane_index_bounds:
  assumes "0 \<le> u" "u < m" "0 \<le> j" "j < (p :: int)"
  shows "0 \<le> u + j * m" and "u + j * m < m * p"
proof -
  from assms have m: "0 < m" by simp
  from assms m show "0 \<le> u + j * m" by simp
  from assms(4) have "j + 1 \<le> p" by simp
  then have "(j + 1) * m \<le> p * m"
    using m by (intro mult_right_mono) simp_all
  then have "j * m + m \<le> m * p" by (simp add: algebra_simps)
  with assms(2) show "u + j * m < m * p" by simp
qed

lemma stride_index_bound:
  assumes dec: "fstride * m * p = (N :: int)" and N: "0 < N"
    and u: "0 \<le> u" "u < m" and j: "0 \<le> j" "j < p"
  shows "fstride * (u + j * m) < N"
proof -
  from u j have m: "0 < m" and p: "0 < p" by simp_all
  from decomposition_bounds [OF dec N m p] have f: "0 < fstride" by simp
  from lane_index_bounds [OF u j] have "u + j * m + 1 \<le> m * p" by simp
  then have "fstride * (u + j * m + 1) \<le> fstride * (m * p)"
    using f by (intro mult_left_mono) simp_all
  then have "fstride * (u + j * m) + fstride \<le> N"
    using dec by (simp add: algebra_simps)
  with f show ?thesis by simp
qed

lemma lane_index_unique:
  assumes "0 \<le> u" "u < m" "0 \<le> u'" "u' < m" "u + j * m = u' + j' * (m :: int)"
  shows "u = u' \<and> j = j'"
proof -
  from assms(5) have "(u + j * m) mod m = (u' + j' * m) mod m" by simp
  then have "u mod m = u' mod m" by simp
  with assms(1-4) have uu: "u = u'" by simp
  with assms(5) have "j * m = j' * m" by simp
  with assms(1,2) have "j = j'" by simp
  with uu show ?thesis by simp
qed

lemma gather_loop_result:
  assumes len: "int (length scratch0) = p" and u: "0 \<le> u" and m: "0 \<le> m" and top: "u + p * m < 2 ^ 31"
  shows "0 \<le> q1 \<Longrightarrow> q1 \<le> p \<Longrightarrow> length scratch = length scratch0 \<Longrightarrow>
         \<exists>sc. gather_loop Fout m p q1 (u + q1 * m) scratch = Inr sc \<and> length sc = length scratch0 \<and>
              (\<forall>q<length scratch0. sc ! q = (if nat q1 \<le> q then Fout (u + int q * m) else scratch ! q))"
proof (induction "nat (p - q1)" arbitrary: q1 scratch)
  case 0
  then have "q1 = p" by simp
  with len 0 show ?case
    by (subst gather_loop.simps) auto
next
  case (Suc n)
  then have lt: "q1 < p" by simp
  have w: "wr scratch q1 (C_FIXDIV (Fout (u + q1 * m)) p) = Inr (scratch[nat q1 := Fout (u + q1 * m)])"
    using lt Suc.prems len by (simp add: wr_def C_FIXDIV_def)
  have "(q1 + 1) * m \<le> p * m"
    using lt m by (intro mult_right_mono) simp_all
  then have "u + q1 * m + m \<le> u + p * m" by (simp add: algebra_simps)
  moreover have "0 \<le> u + q1 * m + m" using u m Suc.prems by simp
  ultimately have k: "to_int (u + q1 * m + m) = u + (q1 + 1) * m"
    using top by (simp add: to_int_id algebra_simps)
  from Suc.hyps(2) have n: "n = nat (p - (q1 + 1))" by simp
  from Suc.hyps(1) [OF n, of "scratch[nat q1 := Fout (u + q1 * m)]"] lt Suc.prems
  obtain sc where sc: "gather_loop Fout m p (q1 + 1) (u + (q1 + 1) * m) (scratch[nat q1 := Fout (u + q1 * m)]) = Inr sc"
    "length sc = length scratch0"
    "\<forall>q<length scratch0. sc ! q = (if nat (q1 + 1) \<le> q then Fout (u + int q * m)
        else scratch[nat q1 := Fout (u + q1 * m)] ! q)"
    by auto
  have "gather_loop Fout m p q1 (u + q1 * m) scratch = Inr sc"
    by (subst gather_loop.simps) (simp add: lt w k sc(1))
  moreover have "\<forall>q<length scratch0. sc ! q = (if nat q1 \<le> q then Fout (u + int q * m) else scratch ! q)"
    using sc(3) Suc.prems lt by (auto simp: nth_list_update)
  ultimately show ?case using sc(2) by blast
qed

lemma output_loop_result:
  fixes st :: "('a::{plus,minus,times}) kiss_fft_state"
  assumes len: "int (length scratch) = p"
    and N: "0 < nfft st" "nfft st \<le> 2 ^ 30" and tab: "nfft st \<le> int (length (twiddles st))"
    and dec: "fstride * m * p = nfft st" and u: "0 \<le> u" "u < m"
  shows "0 \<le> q1 \<Longrightarrow> q1 \<le> p \<Longrightarrow>
         \<exists>F. output_loop st fstride m p scratch q1 (u + q1 * m) Fout = Inr F \<and>
             (\<forall>j. q1 \<le> j \<and> j < p \<longrightarrow>
                F (u + j * m) = foldl (\<lambda>acc q. C_ADDTO acc (C_MUL (scratch ! nat q)
                                   (twiddles st ! nat ((q * fstride * (u + j * m)) mod nfft st))))
                                  (scratch ! 0) [1..p - 1]) \<and>
             (\<forall>x. (\<forall>j. q1 \<le> j \<and> j < p \<longrightarrow> x \<noteq> u + j * m) \<longrightarrow> F x = Fout x)"
proof (induction "nat (p - q1)" arbitrary: q1 Fout)
  case 0
  then have "q1 = p" by simp
  then show ?case
    by (subst output_loop.simps) auto
next
  case (Suc n)
  let ?out = "\<lambda>j. foldl (\<lambda>acc q. C_ADDTO acc (C_MUL (scratch ! nat q)
                                   (twiddles st ! nat ((q * fstride * (u + j * m)) mod nfft st))))
                                  (scratch ! 0) [1..p - 1]"
  let ?k = "u + q1 * m"
  from Suc have lt: "q1 < p" and q1: "0 \<le> q1" by simp_all
  from u have m: "0 < m" by simp
  from lt q1 have p: "0 < p" by simp
  from decomposition_bounds [OF dec N(1) m p] have f: "0 < fstride" and mp: "m * p \<le> nfft st"
    by simp_all
  from lane_index_bounds [OF u q1 lt] have k: "0 \<le> ?k" "?k < m * p" by simp_all
  from stride_index_bound [OF dec N(1) u q1 lt] have fk: "fstride * ?k < nfft st" .
  from k mp N have k31: "?k < 2 ^ 31" by simp
  have r0: "rd scratch 0 = Inr (scratch ! 0)"
    using p len by (simp add: rd_def)
  have tl: "twiddle_loop st fstride p scratch ?k 1 0 (Fout(?k := scratch ! 0)) = Inr (Fout(?k := ?out q1))"
    using twiddle_loop_result [of 1 p scratch st ?k fstride 0 "Fout(?k := scratch ! 0)"]
      p len N tab k(1) k31 f fk
    by simp
  have "m \<le> m * p" using m p by simp
  with k mp N have "?k + m < 2 ^ 31" by simp
  with k m have next_k: "to_int (?k + m) = u + (q1 + 1) * m"
    by (simp add: to_int_id algebra_simps)
  from Suc.hyps(2) have n: "n = nat (p - (q1 + 1))" by simp
  from Suc.hyps(1) [OF n, of "Fout(?k := ?out q1)"] lt q1
  obtain F where F: "output_loop st fstride m p scratch (q1 + 1) (u + (q1 + 1) * m) (Fout(?k := ?out q1)) = Inr F"
    and later: "\<forall>j. q1 + 1 \<le> j \<and> j < p \<longrightarrow> F (u + j * m) = ?out j"
    and frame: "\<forall>x. (\<forall>j. q1 + 1 \<le> j \<and> j < p \<longrightarrow> x \<noteq> u + j * m) \<longrightarrow> F x = (Fout(?k := ?out q1)) x"
    by auto
  have call: "output_loop st fstride m p scratch q1 ?k Fout = Inr F"
    by (subst output_loop.simps) (simp add: lt r0 tl next_k F)
  have distinct: "?k \<noteq> u + j * m" if "q1 + 1 \<le> j" for j
    using that m by simp
  have here: "F ?k = ?out q1"
  proof -
    have "\<forall>j. q1 + 1 \<le> j \<and> j < p \<longrightarrow> ?k \<noteq> u + j * m"
      using distinct by blast
    with frame have "F ?k = (Fout(?k := ?out q1)) ?k" by blast
    then show ?thesis by simp
  qed
  have all: "\<forall>j. q1 \<le> j \<and> j < p \<longrightarrow> F (u + j * m) = ?out j"
  proof (intro allI impI)
    fix j assume j: "q1 \<le> j \<and> j < p"
    show "F (u + j * m) = ?out j"
    proof (cases "j = q1")
      case True with here show ?thesis by simp
    next
      case False with j later show ?thesis by simp
    qed
  qed
  have frame': "\<forall>x. (\<forall>j. q1 \<le> j \<and> j < p \<longrightarrow> x \<noteq> u + j * m) \<longrightarrow> F x = Fout x"
  proof (intro allI impI)
    fix x assume x: "\<forall>j. q1 \<le> j \<and> j < p \<longrightarrow> x \<noteq> u + j * m"
    then have xk: "x \<noteq> ?k" using lt by auto
    from x have "\<forall>j. q1 + 1 \<le> j \<and> j < p \<longrightarrow> x \<noteq> u + j * m" by auto
    with frame have "F x = (Fout(?k := ?out q1)) x" by blast
    with xk show "F x = Fout x" by simp
  qed
  from call all frame' show ?case by blast
qed

lemma direct_dft_cong:
  assumes "F u = G u" and "\<forall>q. 1 \<le> q \<and> q < p \<longrightarrow> F (u + q * m) = G (u + q * m)"
  shows "direct_dft st fstride m p F u j = direct_dft st fstride m p G u j"
  unfolding direct_dft_def using assms by (intro foldl_cong) auto

lemma scratch_dft:
  assumes len: "int (length sc) = p" and p: "0 < p"
    and sc: "\<forall>q<length sc. sc ! q = Fout (u + int q * m)"
  shows "foldl (\<lambda>acc q. C_ADDTO acc (C_MUL (sc ! nat q)
                                   (twiddles st ! nat ((q * fstride * (u + j * m)) mod nfft st))))
           (sc ! 0) [1..p - 1]
         = direct_dft st fstride m p Fout u j"
  unfolding direct_dft_def
proof (intro foldl_cong refl)
  from len p have "0 < length sc" by (cases sc) simp_all
  with sc have "sc ! 0 = Fout (u + int 0 * m)" by blast
  then show "sc ! 0 = Fout u" by simp
next
  fix acc q assume "q \<in> set [1..p - 1]"
  then have q: "1 \<le> q" "q < p" by simp_all
  with len have "nat q < length sc" by simp
  with sc have "sc ! nat q = Fout (u + int (nat q) * m)" by blast
  with q show "C_ADDTO acc (C_MUL (sc ! nat q) (twiddles st ! nat ((q * fstride * (u + j * m)) mod nfft st)))
      = C_ADDTO acc (C_MUL (Fout (u + q * m)) (twiddles st ! nat ((q * fstride * (u + j * m)) mod nfft st)))"
    by simp
qed

lemma lane_loop_result:
  fixes st :: "('a::{plus,minus,times}) kiss_fft_state"
  assumes N: "0 < nfft st" "nfft st \<le> 2 ^ 30" and tab: "nfft st \<le> int (length (twiddles st))"
    and dec: "fstride * m * p = nfft st" and m: "0 < m" and p: "0 < p"
  shows "0 \<le> u \<Longrightarrow> u \<le> m \<Longrightarrow> int (length scratch) = p \<Longrightarrow>
         \<exists>F. lane_loop st fstride m p u scratch Fout = Inr F \<and>
             (\<forall>u' j. u \<le> u' \<and> u' < m \<and> 0 \<le> j \<and> j < p \<longrightarrow>
                F (u' + j * m) = direct_dft st fstride m p Fout u' j) \<and>
             (\<forall>x. (\<forall>u' j. u \<le> u' \<and> u' < m \<and> 0 \<le> j \<and> j < p \<longrightarrow> x \<noteq> u' + j * m) \<longrightarrow> F x = Fout x)"
proof (induction "nat (m - u)" arbitrary: u scratch Fout)
  case 0
  then have "u = m" by simp
  then show ?case
    by (subst lane_loop.simps) auto
next
  case (Suc n)
  from Suc have lt: "u < m" and u: "0 \<le> u" and len: "int (length scratch) = p" by simp_all
  from decomposition_bounds [OF dec N(1) m p] have mp: "m * p \<le> nfft st" by simp
  have "m \<le> m * p" using m p by simp
  with lt mp N have top: "u + p * m < 2 ^ 31" by (simp add: mult.commute)
  have "\<exists>sc. gather_loop Fout m p 0 (u + 0 * m) scratch = Inr sc \<and> length sc = length scratch \<and>
              (\<forall>q<length scratch. sc ! q = (if nat 0 \<le> q then Fout (u + int q * m) else scratch ! q))"
    using m p by (intro gather_loop_result [OF len u _ top]) simp_all
  then obtain sc where g0: "gather_loop Fout m p 0 (u + 0 * m) scratch = Inr sc"
    and lsc: "length sc = length scratch"
    and sc0: "\<forall>q<length scratch. sc ! q = (if nat 0 \<le> q then Fout (u + int q * m) else scratch ! q)"
    by blast
  from g0 have g: "gather_loop Fout m p 0 u scratch = Inr sc" by simp
  from lsc len have len': "int (length sc) = p" by simp
  from sc0 lsc have sc': "\<forall>q<length sc. sc ! q = Fout (u + int q * m)" by simp
  have "\<exists>F. output_loop st fstride m p sc 0 (u + 0 * m) Fout = Inr F \<and>
             (\<forall>j. 0 \<le> j \<and> j < p \<longrightarrow>
                F (u + j * m) = foldl (\<lambda>acc q. C_ADDTO acc (C_MUL (sc ! nat q)
                                   (twiddles st ! nat ((q * fstride * (u + j * m)) mod nfft st))))
                                  (sc ! 0) [1..p - 1]) \<and>
             (\<forall>x. (\<forall>j. 0 \<le> j \<and> j < p \<longrightarrow> x \<noteq> u + j * m) \<longrightarrow> F x = Fout x)"
    using p by (intro output_loop_result [OF len' N tab dec u lt]) simp_all
  then obtain F1 where o0: "output_loop st fstride m p sc 0 (u + 0 * m) Fout = Inr F1"
    and lane0: "\<forall>j. 0 \<le> j \<and> j < p \<longrightarrow>
                F1 (u + j * m) = foldl (\<lambda>acc q. C_ADDTO acc (C_MUL (sc ! nat q)
                                   (twiddles st ! nat ((q * fstride * (u + j * m)) mod nfft st))))
                                  (sc ! 0) [1..p - 1]"
    and frame1: "\<forall>x. (\<forall>j. 0 \<le> j \<and> j < p \<longrightarrow> x \<noteq> u + j * m) \<longrightarrow> F1 x = Fout x"
    by blast
  from o0 have o: "output_loop st fstride m p sc 0 u Fout = Inr F1" by simp
  from lane0 have lane: "\<forall>j. 0 \<le> j \<and> j < p \<longrightarrow> F1 (u + j * m) = direct_dft st fstride m p Fout u j"
    by (simp only: scratch_dft [OF len' p sc'])
  from Suc.hyps(2) have n: "n = nat (m - (u + 1))" by simp
  have "\<exists>F. lane_loop st fstride m p (u + 1) sc F1 = Inr F \<and>
             (\<forall>u' j. u + 1 \<le> u' \<and> u' < m \<and> 0 \<le> j \<and> j < p \<longrightarrow>
                F (u' + j * m) = direct_dft st fstride m p F1 u' j) \<and>
             (\<forall>x. (\<forall>u' j. u + 1 \<le> u' \<and> u' < m \<and> 0 \<le> j \<and> j < p \<longrightarrow> x \<noteq> u' + j * m) \<longrightarrow> F x = F1 x)"
    using lt u len' by (intro Suc.hyps(1) [OF n]) simp_all
  then obtain F where l: "lane_loop st fstride m p (u + 1) sc F1 = Inr F"
    and later: "\<forall>u' j. u + 1 \<le> u' \<and> u' < m \<and> 0 \<le> j \<and> j < p \<longrightarrow>
                  F (u' + j * m) = direct_dft st fstride m p F1 u' j"
    and frame: "\<forall>x. (\<forall>u' j. u + 1 \<le> u' \<and> u' < m \<and> 0 \<le> j \<and> j < p \<longrightarrow> x \<noteq> u' + j * m) \<longrightarrow> F x = F1 x"
    by blast
  have call: "lane_loop st fstride m p u scratch Fout = Inr F"
    by (subst lane_loop.simps) (simp add: lt g o l)
  have other_lane: "F1 (u' + q * m) = Fout (u' + q * m)" if "u + 1 \<le> u'" "u' < m" for u' q
  proof -
    have "u' + q * m \<noteq> u + j * m" for j
    proof
      assume "u' + q * m = u + j * m"
      from lane_index_unique [OF _ that(2) u lt this] that(1) u show False by simp
    qed
    then have "\<forall>j. 0 \<le> j \<and> j < p \<longrightarrow> u' + q * m \<noteq> u + j * m" by blast
    with frame1 show ?thesis by blast
  qed
  have dft_later: "direct_dft st fstride m p F1 u' j = direct_dft st fstride m p Fout u' j"
    if "u + 1 \<le> u'" "u' < m" for u' j
  proof (rule direct_dft_cong)
    from other_lane [OF that, of 0] show "F1 u' = Fout u'" by simp
    from other_lane [OF that] show "\<forall>q. 1 \<le> q \<and> q < p \<longrightarrow> F1 (u' + q * m) = Fout (u' + q * m)"
      by blast
  qed
  have this_lane: "F (u + j * m) = direct_dft st fstride m p Fout u j" if "0 \<le> j" "j < p" for j
  proof -
    have "u + j * m \<noteq> u' + j' * m" if "u + 1 \<le> u'" "u' < m" for u' j'
    proof
      assume "u + j * m = u' + j' * m"
      from lane_index_unique [OF u lt _ that(2) this] that(1) u show False by simp
    qed
    then have "\<forall>u' j'. u + 1 \<le> u' \<and> u' < m \<and> 0 \<le> j' \<and> j' < p \<longrightarrow> u + j * m \<noteq> u' + j' * m"
      by blast
    with frame have "F (u + j * m) = F1 (u + j * m)" by blast
    also from lane that have "F1 (u + j * m) = direct_dft st fstride m p Fout u j" by blast
    finally show ?thesis .
  qed
  have all: "\<forall>u' j. u \<le> u' \<and> u' < m \<and> 0 \<le> j \<and> j < p \<longrightarrow>
                F (u' + j * m) = direct_dft st fstride m p Fout u' j"
  proof (intro allI impI)
    fix u' j assume a: "u \<le> u' \<and> u' < m \<and> 0 \<le> j \<and> j < p"
    show "F (u' + j * m) = direct_dft st fstride m p Fout u' j"
    proof (cases "u' = u")
      case True
      from a have "0 \<le> j" "j < p" by simp_all
      from this_lane [OF this] True show ?thesis by simp
    next
      case False
      with a have u': "u + 1 \<le> u'" "u' < m" by simp_all
      with a later have "F (u' + j * m) = direct_dft st fstride m p F1 u' j" by blast
      with dft_later [OF u'] show ?thesis by simp
    qed
  qed
  have frame': "\<forall>x. (\<forall>u' j. u \<le> u' \<and> u' < m \<and> 0 \<le> j \<and> j < p \<longrightarrow> x \<noteq> u' + j * m) \<longrightarrow> F x = Fout x"
  proof (intro allI impI)
    fix x assume x: "\<forall>u' j. u \<le> u' \<and> u' < m \<and> 0 \<le> j \<and> j < p \<longrightarrow> x \<noteq> u' + j * m"
    then have "\<forall>u' j. u + 1 \<le> u' \<and> u' < m \<and> 0 \<le> j \<and> j < p \<longrightarrow> x \<noteq> u' + j * m" by auto
    with frame have "F x = F1 x" by blast
    moreover from x lt have "\<forall>j. 0 \<le> j \<and> j < p \<longrightarrow> x \<noteq> u + j * m" by auto
    with frame1 have "F1 x = Fout x" by blast
    ultimately show "F x = Fout x" by simp
  qed
  from call all frame' show ?case by blast
qed

lemma kf_bfly_generic_result:
  fixes st :: "('a::{plus,minus,times}) kiss_fft_state"
  assumes N: "0 < nfft st" "nfft st \<le> 2 ^ 30" and tab: "nfft st \<le> int (length (twiddles st))"
    and dec: "fstride * m * p = nfft st" and m: "0 < m" and p: "0 < p"
  shows "\<exists>F. kf_bfly_generic Fout fstride st m p junk = Inr F \<and>
             (\<forall>u j. 0 \<le> u \<and> u < m \<and> 0 \<le> j \<and> j < p \<longrightarrow>
                F (u + j * m) = direct_dft st fstride m p Fout u j) \<and>
             (\<forall>x. (\<forall>u j. 0 \<le> u \<and> u < m \<and> 0 \<le> j \<and> j < p \<longrightarrow> x \<noteq> u + j * m) \<longrightarrow> F x = Fout x)"
  unfolding kf_bfly_generic_def
  using m p by (intro lane_loop_result [OF N tab dec m p]) simp_all

lemma direct_dft_truncated_table:
  assumes N: "0 < nfft st"
  shows "direct_dft (st\<lparr>twiddles := take (nat (nfft st)) (twiddles st)\<rparr>) fstride m p Fout u j
         = direct_dft st fstride m p Fout u j"
  unfolding direct_dft_def
proof (intro foldl_cong refl)
  fix acc q
  let ?i = "(q * fstride * (u + j * m)) mod nfft st"
  from N have "0 \<le> ?i" "?i < nfft st" by simp_all
  then have "nat ?i < nat (nfft st)" by simp
  then have "take (nat (nfft st)) (twiddles st) ! nat ?i = twiddles st ! nat ?i" by simp
  then show "C_ADDTO acc (C_MUL (Fout (u + q * m))
        (twiddles (st\<lparr>twiddles := take (nat (nfft st)) (twiddles st)\<rparr>) !
          nat ((q * fstride * (u + j * m)) mod nfft (st\<lparr>twiddles := take (nat (nfft st)) (twiddles st)\<rparr>))))
      = C_ADDTO acc (C_MUL (Fout (u + q * m)) (twiddles st ! nat ((q * fstride * (u + j * m)) mod nfft st)))"
    by simp
qed

lemma lane_position:
  assumes m: "0 < m" and x: "0 \<le> x" "x < m * (p :: int)"
  shows "0 \<le> x mod m \<and> x mod m < m \<and> 0 \<le> x div m \<and> x div m < p \<and> x = x mod m + (x div m) * m"
proof -
  from m have a: "0 \<le> x mod m" "x mod m < m" by simp_all
  from m x(1) have b: "0 \<le> x div m" by (simp add: pos_imp_zdiv_nonneg_iff)
  have d: "x = x mod m + (x div m) * m" by simp
  have c: "x div m < p"
  proof (rule ccontr)
    assume "\<not> x div m < p"
    then have "p * m \<le> (x div m) * m"
      using m by (intro mult_right_mono) simp_all
    also from a(1) d have "(x div m) * m \<le> x" by linarith
    finally show False using x(2) by (simp add: mult.commute)
  qed
  from a b c d show ?thesis by blast
qed

subsection \<open>Unfolding the loops on concrete data\<close>

lemma gather_loop_unfold:
  "q1 < p \<Longrightarrow> gather_loop Fout m p q1 k scratch =
     (case wr scratch q1 (C_FIXDIV (Fout k) p) of
        Inl e \<Rightarrow> Inl e
      | Inr scratch' \<Rightarrow> gather_loop Fout m p (q1 + 1) (to_int (k + m)) scratch')"
  "\<not> q1 < p \<Longrightarrow> gather_loop Fout m p q1 k scratch = Inr scratch"
  by (subst gather_loop.simps, simp)+

lemma twiddle_loop_unfold:
  "q < p \<Longrightarrow> twiddle_loop st fstride p scratch k q twidx Fout =
     (case rd scratch q of
        Inl e \<Rightarrow> Inl e
      | Inr s \<Rightarrow>
          (case rd (twiddles st) (next_twidx (nfft st) fstride k twidx) of
             Inl e \<Rightarrow> Inl e
           | Inr w \<Rightarrow>
               twiddle_loop st fstride p scratch k (q + 1) (next_twidx (nfft st) fstride k twidx)
                 (Fout(k := C_ADDTO (Fout k) (C_MUL s w)))))"
  "\<not> q < p \<Longrightarrow> twiddle_loop st fstride p scratch k q twidx Fout = Inr Fout"
  by (subst twiddle_loop.simps, simp add: Let_def)+

lemma output_loop_unfold:
  "q1 < p \<Longrightarrow> output_loop st fstride m p scratch q1 k Fout =
     (case rd scratch 0 of
        Inl e \<Rightarrow> Inl e
      | Inr s0 \<Rightarrow>
          (case twiddle_loop st fstride p scratch k 1 0 (Fout(k := s0)) of
             Inl e \<Rightarrow> Inl e
           | Inr Fout' \<Rightarrow> output_loop st fstride m p scratch (q1 + 1) (to_int (k + m)) Fout'))"
  "\<not> q1 < p \<Longrightarrow> output_loop st fstride m p scratch q1 k Fout = Inr Fout"
  by (subst output_loop.simps, simp)+

lemma lane_loop_unfold:
  "u < m \<Longrightarrow> lane_loop st fstride m p u scratch Fout =
     (case gather_loop Fout m p 0 u scratch of
        Inl e \<Rightarrow> Inl e
      | Inr scratch' \<Rightarrow>
          (case output_loop st fstride m p scratch' 0 u Fout of
             Inl e \<Rightarrow> Inl e
           | Inr Fout' \<Rightarrow> lane_loop st fstride m p (u + 1) scratch' Fout'))"
  "\<not> u < m \<Longrightarrow> lane_loop st fstride m p u scratch Fout = Inr Fout"
  by (subst lane_loop.simps, simp)+

lemma replicate_7: "replicate (nat 7) x = [x, x, x, x, x, x, x]"
  by (simp add: eval_nat_numeral)

lemma table_6_fields:
  "nfft table_6 = 6"
  "twiddles table_6 = [Cpx 1 0, Cpx 2 (- 1), Cpx 0 (- 1), Cpx (- 1) 0, Cpx (- 2) 1, Cpx 0 1]"
  by (simp_all add: table_6_def)

lemma direct_dft_table_6: "direct_dft table_6 1 2 3 (\<lambda>x. Cpx x 1) 1 2 = Cpx (- 11) 7"
proof -
  have "[1..3 - 1] = [1, 2 :: int]" by (simp add: upto_rec1)
  then show ?thesis
    by (simp add: direct_dft_def table_6_fields C_MUL_def C_ADDTO_def)
qed

section \<open>What the butterfly computes\<close>

text \<open>
  \<open>direct_dft\<close> adds its terms one after the other, which is all that can be said of
  rounded arithmetic. Where addition is associative and commutative it is the sum:
\<close>

lemma foldl_C_ADDTO_sum:
  fixes a :: "('a::comm_monoid_add) kiss_fft_cpx"
  shows "foldl (\<lambda>acc q. C_ADDTO acc (g q)) a xs
         = Cpx (cpx_r a + (\<Sum>q\<leftarrow>xs. cpx_r (g q))) (cpx_i a + (\<Sum>q\<leftarrow>xs. cpx_i (g q)))"
  by (induction xs arbitrary: a) (simp_all add: C_ADDTO_def add.assoc)

lemma direct_dft_exact:
  fixes st :: "('a::comm_ring) kiss_fft_state"
  shows "direct_dft st fstride m p Fout u j
         = Cpx (cpx_r (Fout u) + (\<Sum>q\<leftarrow>[1..p - 1]. cpx_r (C_MUL (Fout (u + q * m))
                    (twiddles st ! nat ((q * fstride * (u + j * m)) mod nfft st)))))
               (cpx_i (Fout u) + (\<Sum>q\<leftarrow>[1..p - 1]. cpx_i (C_MUL (Fout (u + q * m))
                    (twiddles st ! nat ((q * fstride * (u + j * m)) mod nfft st)))))"
  unfolding direct_dft_def by (rule foldl_C_ADDTO_sum)

text \<open>
  C1. Let \<open>st\<close> be the configuration the program builds for a requested size, let its
  table hold at least \<open>nfft\<close> entries, and let \<open>fstride * m * p = nfft\<close>. Then the
  function returns, and for every lane \<open>u\<close> in \<open>[0, m)\<close> and every position \<open>j\<close> in
  \<open>[0, p)\<close> the final value at index \<open>u + j * m\<close> is the sum over \<open>q\<close> in \<open>[0, p)\<close> of
  the value originally at index \<open>u + q * m\<close> times the twiddle factor at index
  \<open>(q * fstride * (u + j * m)) mod nfft\<close>, the term for \<open>q = 0\<close> being the value itself:
  the direct transform of size \<open>p\<close> of the values gathered for the lane.
\<close>

theorem kf_bfly_generic_direct_dft:
  fixes st :: "('a::{plus,minus,times}) kiss_fft_state"
  assumes built: "configured_for n st" and tab: "nfft st \<le> int (length (twiddles st))"
    and dec: "fstride * m * p = nfft st" and "0 \<le> u" and "u < m" and "0 \<le> j" and "j < p"
  shows "\<exists>F. kf_bfly_generic Fout fstride st m p junk = Inr F \<and>
             F (u + j * m) = direct_dft st fstride m p Fout u j"
proof -
  from assms have m: "0 < m" and p: "0 < p" by simp_all
  note N = configured_for_bounds [OF built]
  from kf_bfly_generic_result [OF N tab dec m p, of Fout junk]
  obtain F where call: "kf_bfly_generic Fout fstride st m p junk = Inr F"
    and lanes: "\<forall>u j. 0 \<le> u \<and> u < m \<and> 0 \<le> j \<and> j < p \<longrightarrow>
                F (u + j * m) = direct_dft st fstride m p Fout u j"
    by blast
  from lanes assms(4-7) have "F (u + j * m) = direct_dft st fstride m p Fout u j" by blast
  with call show ?thesis by blast
qed

theorem kf_bfly_generic_direct_dft_witness:
  "configured_for 12 table_6 \<and>
   (\<exists>F. kf_bfly_generic (\<lambda>x. Cpx x 1) 1 table_6 2 3 (Cpx 0 0) = Inr F \<and> F 5 = Cpx (- 11) 7)"
  using kf_bfly_generic_direct_dft [OF configured_for_table_6, where fstride = 1 and m = 2 and p = 3
      and u = 1 and j = 2 and Fout = "\<lambda>x. Cpx x 1" and junk = "Cpx 0 0"]
  by (simp add: table_6_fields direct_dft_table_6 configured_for_table_6)

section \<open>The indices the butterfly uses\<close>

text \<open>
  C10. Let \<open>st\<close> be the configuration the program builds for a requested size, let
  \<open>fstride * m * p = nfft\<close>, \<open>1 \<le> m\<close>, \<open>1 \<le> p\<close> and let the table hold at least \<open>nfft\<close>
  entries. Then the function returns, so no read of the table and no access of the
  scratch vector is out of bounds; it returns the same with the table cut to its
  first \<open>nfft\<close> entries, so every twiddle index is below \<open>nfft\<close>; it changes no cell of
  \<open>Fout\<close> outside \<open>[0, m * p)\<close>; and for every \<open>k\<close> in \<open>[0, m * p)\<close> and every \<open>twidx\<close>
  in \<open>[0, nfft)\<close> the update with its single subtraction yields
  \<open>(twidx + fstride * k) mod nfft\<close>.
\<close>

theorem kf_bfly_generic_in_bounds:
  fixes st :: "('a::{plus,minus,times}) kiss_fft_state"
  assumes built: "configured_for n st" and dec: "fstride * m * p = nfft st"
    and m: "1 \<le> m" and p: "1 \<le> p" and tab: "nfft st \<le> int (length (twiddles st))"
  shows "(\<exists>F. kf_bfly_generic Fout fstride st m p junk = Inr F
            \<and> kf_bfly_generic Fout fstride (st\<lparr>twiddles := take (nat (nfft st)) (twiddles st)\<rparr>) m p junk = Inr F
            \<and> (\<forall>x. x < 0 \<or> m * p \<le> x \<longrightarrow> F x = Fout x))
         \<and> (\<forall>k twidx. 0 \<le> k \<and> k < m * p \<and> 0 \<le> twidx \<and> twidx < nfft st \<longrightarrow>
               next_twidx (nfft st) fstride k twidx = (twidx + fstride * k) mod nfft st)"
proof -
  note N = configured_for_bounds [OF built]
  let ?st' = "st\<lparr>twiddles := take (nat (nfft st)) (twiddles st)\<rparr>"
  from m p have m0: "0 < m" and p0: "0 < p" by simp_all
  from decomposition_bounds [OF dec N(1) m0 p0] have f: "0 < fstride" and mp: "m * p \<le> nfft st"
    by simp_all
  from kf_bfly_generic_result [OF N tab dec m0 p0, of Fout junk]
  obtain F where call: "kf_bfly_generic Fout fstride st m p junk = Inr F"
    and lanes: "\<forall>u j. 0 \<le> u \<and> u < m \<and> 0 \<le> j \<and> j < p \<longrightarrow>
                F (u + j * m) = direct_dft st fstride m p Fout u j"
    and frame: "\<forall>x. (\<forall>u j. 0 \<le> u \<and> u < m \<and> 0 \<le> j \<and> j < p \<longrightarrow> x \<noteq> u + j * m) \<longrightarrow> F x = Fout x"
    by blast
  have N': "0 < nfft ?st'" "nfft ?st' \<le> 2 ^ 30" using N by simp_all
  have tab': "nfft ?st' \<le> int (length (twiddles ?st'))" using tab N by simp
  have dec': "fstride * m * p = nfft ?st'" using dec by simp
  from kf_bfly_generic_result [OF N' tab' dec' m0 p0, of Fout junk]
  obtain F' where call': "kf_bfly_generic Fout fstride ?st' m p junk = Inr F'"
    and lanes': "\<forall>u j. 0 \<le> u \<and> u < m \<and> 0 \<le> j \<and> j < p \<longrightarrow>
                F' (u + j * m) = direct_dft ?st' fstride m p Fout u j"
    and frame': "\<forall>x. (\<forall>u j. 0 \<le> u \<and> u < m \<and> 0 \<le> j \<and> j < p \<longrightarrow> x \<noteq> u + j * m) \<longrightarrow> F' x = Fout x"
    by blast
  have outside: "F x = Fout x \<and> F' x = Fout x" if "x < 0 \<or> m * p \<le> x" for x
  proof -
    have "x \<noteq> u + j * m" if "0 \<le> u" "u < m" "0 \<le> j" "j < p" for u j
      using lane_index_bounds [OF that] \<open>x < 0 \<or> m * p \<le> x\<close> by auto
    then have "\<forall>u j. 0 \<le> u \<and> u < m \<and> 0 \<le> j \<and> j < p \<longrightarrow> x \<noteq> u + j * m" by blast
    with frame frame' show ?thesis by blast
  qed
  have "F' x = F x" for x
  proof (cases "x < 0 \<or> m * p \<le> x")
    case True
    with outside show ?thesis by simp
  next
    case False
    then have "0 \<le> x" "x < m * p" by simp_all
    from lane_position [OF m0 this]
    have pos: "0 \<le> x mod m \<and> x mod m < m \<and> 0 \<le> x div m \<and> x div m < p"
      and x: "x = x mod m + (x div m) * m" by blast+
    from lanes pos have "F (x mod m + (x div m) * m) = direct_dft st fstride m p Fout (x mod m) (x div m)"
      by blast
    moreover from lanes' pos
    have "F' (x mod m + (x div m) * m) = direct_dft ?st' fstride m p Fout (x mod m) (x div m)"
      by blast
    ultimately have "F' (x mod m + (x div m) * m) = F (x mod m + (x div m) * m)"
      by (simp only: direct_dft_truncated_table [OF N(1)])
    with x show ?thesis by simp
  qed
  then have "F' = F" by (rule ext)
  with call' have call'': "kf_bfly_generic Fout fstride ?st' m p junk = Inr F" by simp
  from outside have fr: "\<forall>x. x < 0 \<or> m * p \<le> x \<longrightarrow> F x = Fout x" by blast
  have tw: "next_twidx (nfft st) fstride k twidx = (twidx + fstride * k) mod nfft st"
    if "0 \<le> k" "k < m * p" "0 \<le> twidx" "twidx < nfft st" for k twidx
  proof -
    from that(2) mp N have k31: "k < 2 ^ 31" by simp
    from that(2) have "k + 1 \<le> m * p" by simp
    then have "fstride * (k + 1) \<le> fstride * (m * p)"
      using f by (intro mult_left_mono) simp_all
    then have "fstride * k + fstride \<le> nfft st"
      using dec by (simp add: algebra_simps)
    with f have fk: "fstride * k < nfft st" by simp
    from f have f0: "0 \<le> fstride" by simp
    from next_twidx_mod [OF N that(3,4) that(1) k31 f0 fk] show ?thesis .
  qed
  then have tw': "\<forall>k twidx. 0 \<le> k \<and> k < m * p \<and> 0 \<le> twidx \<and> twidx < nfft st \<longrightarrow>
               next_twidx (nfft st) fstride k twidx = (twidx + fstride * k) mod nfft st"
    by blast
  from call call'' fr tw' show ?thesis by blast
qed

theorem kf_bfly_generic_in_bounds_witness:
  "(\<exists>F. kf_bfly_generic (\<lambda>x. Cpx x 1) 1 table_6 2 3 (Cpx 0 0) = Inr F \<and> F 6 = Cpx 6 1 \<and> F (- 1) = Cpx (- 1) 1)
   \<and> next_twidx 6 1 5 4 = 3"
proof -
  from kf_bfly_generic_in_bounds [OF configured_for_table_6, where fstride = 1 and m = 2 and p = 3
      and Fout = "\<lambda>x. Cpx x 1" and junk = "Cpx 0 0"]
  have ex: "\<exists>F. kf_bfly_generic (\<lambda>x. Cpx x 1) 1 table_6 2 3 (Cpx 0 0) = Inr F
            \<and> (\<forall>x. x < 0 \<or> 2 * 3 \<le> x \<longrightarrow> F x = Cpx x 1)"
    and tw: "\<forall>k twidx. 0 \<le> k \<and> k < 2 * 3 \<and> 0 \<le> twidx \<and> twidx < nfft table_6 \<longrightarrow>
               next_twidx (nfft table_6) 1 k twidx = (twidx + 1 * k) mod nfft table_6"
    by (auto simp: table_6_fields)
  from ex obtain F where call: "kf_bfly_generic (\<lambda>x. Cpx x 1) 1 table_6 2 3 (Cpx 0 0) = Inr F"
    and frame: "\<forall>x. x < 0 \<or> 2 * 3 \<le> x \<longrightarrow> F x = Cpx x 1"
    by blast
  from frame have "F 6 = Cpx 6 1" "F (- 1) = Cpx (- 1) 1" by simp_all
  moreover from tw have "next_twidx 6 1 5 4 = 3" by (simp add: table_6_fields)
  ultimately show ?thesis using call by blast
qed

section \<open>Beyond the sizes of the program\<close>

text \<open>
  The bound on the size is used. No call of \<open>computeFft\<close> leads to a complex
  configuration of \<open>7 * 2 ^ 28\<close> points; on one, with \<open>fstride = 2\<close>, \<open>m = 2 ^ 27\<close> and
  \<open>p = 7\<close>, the sum \<^verbatim>\<open>twidx + fstride * k\<close> reaches \<open>2 ^ 31\<close> at \<open>k = 2 ^ 28\<close> and
  \<open>twidx = 3 * 2 ^ 29\<close>: the \<^verbatim>\<open>int\<close> becomes negative, the test \<^verbatim>\<open>twidx >= Norig\<close> does not
  reduce it, and the read of the table is out of bounds.
\<close>

lemma twidx_wraps_beyond_program_sizes:
  "\<not> (\<exists>n. configured_for n (unit_table 1879048192))
   \<and> 2 * 134217728 * 7 = nfft (unit_table 1879048192)
   \<and> nfft (unit_table 1879048192) \<le> int (length (twiddles (unit_table 1879048192)))
   \<and> next_twidx (nfft (unit_table 1879048192)) 2 268435456 1610612736 = - 2147483648
   \<and> kf_bfly_generic (\<lambda>x. Cpx 0 0) 2 (unit_table 1879048192) 134217728 7 (Cpx 0 0) = Inl OutOfBounds"
proof -
  have "\<not> (\<exists>n. configured_for n (unit_table 1879048192))"
    by (auto simp: configured_for_def jint_def unit_table_def)
  moreover have "2 * 134217728 * 7 = nfft (unit_table 1879048192)
   \<and> nfft (unit_table 1879048192) \<le> int (length (twiddles (unit_table 1879048192)))
   \<and> next_twidx (nfft (unit_table 1879048192)) 2 268435456 1610612736 = - 2147483648
   \<and> kf_bfly_generic (\<lambda>x. Cpx 0 0) 2 (unit_table 1879048192) 134217728 7 (Cpx 0 0) = Inl OutOfBounds"
    by (simp add: kf_bfly_generic_def unit_table_def replicate_7 lane_loop_unfold gather_loop_unfold
        output_loop_unfold twiddle_loop_unfold rd_def wr_def C_FIXDIV_def C_MUL_def C_ADDTO_def
        next_twidx_def to_int_def to_size_t_def)
  ultimately show ?thesis by blast
qed

end
